theory Spec2Isabelle
  imports Complex_Main "HOL-Library.AList" "HOL-Library.List_Lexorder" "HOL-Library.Char_ord"
    "HOL-Library.Log_Nat"
begin

section \<open>Python floats\<close>

text \<open>
  Amounts are Python floats, that is IEEE 754 double precision numbers. A float is a
  finite number, an infinity or NaN. The two zeros are one value here, as they are for
  every operation the program uses (\<open>0.0 == -0.0\<close>, and a sum is never divided by).
  The finite values that occur in a run of the program are doubles; the operations are
  defined on every rational.
\<close>

datatype pyfloat = Finite rat | PosInf | NegInf | NaN

definition pow2 :: "int \<Rightarrow> rat" where
  "pow2 e = (if 0 \<le> e then 2 ^ nat e else 1 / 2 ^ nat (- e))"

text \<open>Rounding to an integer, to the nearest one and to the even one of two nearest.\<close>

definition round_half_even :: "rat \<Rightarrow> int" where
  "round_half_even x =
     (let f = \<lfloor>x\<rfloor>; d = x - of_int f in
      if d < 1 / 2 then f
      else if 1 / 2 < d then f + 1
      else if even f then f else f + 1)"

text \<open>The exponent \<open>e\<close> with \<open>2 ^ e \<le> a < 2 ^ (e + 1)\<close>, for a positive \<open>a\<close>.\<close>

definition binade :: "rat \<Rightarrow> int" where
  "binade a = (if 1 \<le> a then bitlen \<lfloor>a\<rfloor> - 1 else - bitlen (\<lceil>1 / a\<rceil> - 1))"

text \<open>
  The double nearest to a rational: 53 significant bits, the least exponent of the last
  bit \<open>-1074\<close> (subnormal numbers), ties to the even significand, and an infinity from
  \<open>2 ^ 1024\<close> on.
\<close>

definition round_double :: "rat \<Rightarrow> pyfloat" where
  "round_double x =
     (if x = 0 then Finite 0
      else
        let a = \<bar>x\<bar>;
            q = max (binade a - 52) (- 1074);
            y = of_int (round_half_even (a / pow2 q)) * pow2 q
        in if pow2 1024 \<le> y then (if 0 < x then PosInf else NegInf)
           else Finite (if 0 < x then y else - y))"

text \<open>
  \<open>x + y\<close> on floats: NaN is contagious, the two infinities add to NaN, adding zero
  changes nothing, and the sum of two finite numbers is rounded.
\<close>

fun fadd :: "pyfloat \<Rightarrow> pyfloat \<Rightarrow> pyfloat" where
  "fadd NaN _ = NaN"
| "fadd _ NaN = NaN"
| "fadd PosInf NegInf = NaN"
| "fadd NegInf PosInf = NaN"
| "fadd PosInf _ = PosInf"
| "fadd _ PosInf = PosInf"
| "fadd NegInf _ = NegInf"
| "fadd _ NegInf = NegInf"
| "fadd (Finite x) (Finite y) =
     (if x = 0 then Finite y else if y = 0 then Finite x else round_double (x + y))"

text \<open>\<open>x <= y\<close>, \<open>x < y\<close> and \<open>x == y\<close> on floats: every comparison with NaN is false.\<close>

fun fle :: "pyfloat \<Rightarrow> pyfloat \<Rightarrow> bool" where
  "fle NaN _ = False"
| "fle _ NaN = False"
| "fle NegInf _ = True"
| "fle _ PosInf = True"
| "fle PosInf _ = False"
| "fle _ NegInf = False"
| "fle (Finite x) (Finite y) = (x \<le> y)"

fun flt :: "pyfloat \<Rightarrow> pyfloat \<Rightarrow> bool" where
  "flt NaN _ = False"
| "flt _ NaN = False"
| "flt PosInf _ = False"
| "flt _ NegInf = False"
| "flt NegInf _ = True"
| "flt _ PosInf = True"
| "flt (Finite x) (Finite y) = (x < y)"

definition feq :: "pyfloat \<Rightarrow> pyfloat \<Rightarrow> bool" where
  "feq x y = (x \<noteq> NaN \<and> y \<noteq> NaN \<and> x = y)"

text \<open>
  \<open>sum(values)\<close> adds from left to right, starting at 0. (CPython from 3.12 on also
  carries a correction for the rounding errors of the partial sums; it is zero, and the
  result the same, whenever no partial sum is rounded, and nothing below depends on more.)
  \<open>max(values)\<close> keeps the first value and replaces it by each later one that is greater.
\<close>

definition py_sum :: "pyfloat list \<Rightarrow> pyfloat" where
  "py_sum vs = fold (\<lambda>v acc. fadd acc v) vs (Finite 0)"

definition py_max :: "pyfloat \<Rightarrow> pyfloat list \<Rightarrow> pyfloat" where
  "py_max v vs = fold (\<lambda>item m. if flt m item then item else m) vs v"

text \<open>
  A sum in which no addition rounds: every operand is finite and every partial sum is
  the exact one.
\<close>

fun fval :: "pyfloat \<Rightarrow> rat" where
  "fval (Finite x) = x"
| "fval _ = 0"

definition exact_add :: "pyfloat \<Rightarrow> pyfloat \<Rightarrow> bool" where
  "exact_add x y =
     (case x of
        Finite p \<Rightarrow> (case y of Finite q \<Rightarrow> fadd x y = Finite (p + q) | _ \<Rightarrow> False)
      | _ \<Rightarrow> False)"

fun exact_sum_from :: "pyfloat \<Rightarrow> pyfloat list \<Rightarrow> bool" where
  "exact_sum_from acc [] = True"
| "exact_sum_from acc (v # vs) = (exact_add acc v \<and> exact_sum_from (fadd acc v) vs)"

section \<open>Personal expense tracker: the ledger and its persistence\<close>

text \<open>
  The program keeps three module-level variables: the dict \<open>expenses\<close> (category to
  accumulated total), the list \<open>expense_history\<close> of tuples (date, category, amount,
  description) and the dict \<open>budgets\<close> (category to an optional limit). They are the
  fields of the record \<open>ledger\<close>, and every function that reads or writes them takes the
  ledger and returns the new one.

  A Python str is a list of characters; the characters of HOL are the code points from
  0 to 255, so that the strings here are the strs of such characters.

  A Python dict keeps its keys in insertion order, so a dict is an association list:
  \<open>map_of\<close> reads a key, \<open>AList.update\<close> writes one (in place when the key is there, at
  the end otherwise), \<open>map fst\<close> lists the keys.

  Python's builtin \<open>float(s)\<close> is the parameter \<open>pf\<close> (\<open>None\<close> where it raises
  ValueError; it may yield an infinity or NaN, as \<open>float('inf')\<close> and \<open>float('nan')\<close>
  do), and the text that \<open>csv.writer\<close> writes for a float is the parameter \<open>ps\<close>. The
  date that \<open>datetime.now().strftime(DATE_FORMAT)\<close> yields is the parameter \<open>today\<close>.
\<close>

subsection \<open>Data\<close>

type_synonym expense_record = "string \<times> string \<times> pyfloat \<times> string"

record ledger =
  expenses :: "(string \<times> pyfloat) list"
  expense_history :: "expense_record list"
  budgets :: "(string \<times> pyfloat option) list"

definition DEFAULT_CATEGORIES :: "string list" where
  "DEFAULT_CATEGORIES =
     [''Food'', ''Transportation'', ''Entertainment'', ''Utilities'',
      ''Health'', ''Shopping'', ''Education'', ''Other'']"

text \<open>The state of a freshly started program (lines 24 to 26 of the source).\<close>

definition initial_ledger :: ledger where
  "initial_ledger =
     \<lparr>expenses = map (\<lambda>cat. (cat, Finite 0)) DEFAULT_CATEGORIES,
      expense_history = [],
      budgets = map (\<lambda>cat. (cat, None)) DEFAULT_CATEGORIES\<rparr>"

text \<open>
  The three failure messages of \<open>add_expense\<close> and \<open>set_budget\<close>: an unknown category
  ("Invalid category."), an amount that is not positive ("Amount must be positive.",
  "Budget must be positive.") and an amount that \<open>float\<close> rejects ("Invalid amount.").
  The last two are what the specification calls InvalidAmount.
\<close>

datatype error = Invalid_category | Must_be_positive | Invalid_amount

datatype py_error = ValueError | csv_Error

subsection \<open>Data operations\<close>

text \<open>
  \<open>add_expense\<close>: \<open>category not in expenses\<close> is \<open>map_of (expenses st) category = None\<close>;
  the total found there is the one that \<open>expenses[category] += amount\<close> reads. The amount
  is rejected when \<open>amount <= 0\<close> holds, which it does not for NaN. A success returns the
  amount and the category of the confirmation message.
\<close>

definition add_expense ::
  "(string \<Rightarrow> pyfloat option) \<Rightarrow> string \<Rightarrow> string \<Rightarrow> string \<Rightarrow> string \<Rightarrow> ledger
     \<Rightarrow> (error + pyfloat \<times> string) \<times> ledger" where
  "add_expense pf today category amount description st =
     (case map_of (expenses st) category of
        None \<Rightarrow> (Inl Invalid_category, st)
      | Some cur \<Rightarrow>
          (case pf amount of
             None \<Rightarrow> (Inl Invalid_amount, st)
           | Some a \<Rightarrow>
               if fle a (Finite 0) then (Inl Must_be_positive, st)
               else (Inr (a, category),
                     st\<lparr>expense_history := expense_history st @ [(today, category, a, description)],
                        expenses := AList.update category (fadd cur a) (expenses st)\<rparr>)))"

definition calculate_total_expenses :: "ledger \<Rightarrow> pyfloat" where
  "calculate_total_expenses st = py_sum (map snd (expenses st))"

text \<open>
  \<open>find_highest_spending_category\<close>: \<open>max\<close> of an empty sequence raises ValueError.
  The result is the pair the function returns: \<open>(None, 0.0)\<close> after "No expenses to
  analyze.", the list of top categories and the maximum otherwise.
\<close>

definition find_highest_spending_category ::
  "ledger \<Rightarrow> py_error + (string list option \<times> pyfloat)" where
  "find_highest_spending_category st =
     (case map snd (expenses st) of
        [] \<Rightarrow> Inl ValueError
      | v # vs \<Rightarrow>
          (let max_amount = py_max v vs in
           if feq max_amount (Finite 0) then Inr (None, Finite 0)
           else Inr (Some (map fst (filter (\<lambda>(cat, amt). feq amt max_amount) (expenses st))),
                     max_amount)))"

text \<open>
  \<open>view_expense_history\<close> prints the records it keeps; the model returns them (the list
  \<open>filtered\<close>). A filter is tested for truth before it is used (\<open>if filter_category and ...\<close>),
  and both \<open>None\<close> and the empty string are false in Python. Strings are compared as
  Python compares them, lexicographically by character code.
\<close>

fun filter_history ::
  "string option \<Rightarrow> string option \<Rightarrow> string option \<Rightarrow> expense_record list
     \<Rightarrow> expense_record list" where
  "filter_history filter_category start_date end_date [] = []"
| "filter_history filter_category start_date end_date ((rec_date, rec_cat, rec_amt, rec_desc) # rest) =
     (if (case filter_category of None \<Rightarrow> False | Some c \<Rightarrow> c \<noteq> [] \<and> rec_cat \<noteq> c)
        then filter_history filter_category start_date end_date rest
      else if (case start_date of None \<Rightarrow> False | Some s \<Rightarrow> s \<noteq> [] \<and> rec_date < s)
        then filter_history filter_category start_date end_date rest
      else if (case end_date of None \<Rightarrow> False | Some e \<Rightarrow> e \<noteq> [] \<and> rec_date > e)
        then filter_history filter_category start_date end_date rest
      else (rec_date, rec_cat, rec_amt, rec_desc)
             # filter_history filter_category start_date end_date rest)"

definition view_expense_history ::
  "string option \<Rightarrow> string option \<Rightarrow> string option \<Rightarrow> ledger \<Rightarrow> expense_record list" where
  "view_expense_history filter_category start_date end_date st =
     filter_history filter_category start_date end_date (expense_history st)"

definition set_budget ::
  "(string \<Rightarrow> pyfloat option) \<Rightarrow> string \<Rightarrow> string \<Rightarrow> ledger \<Rightarrow> error option \<times> ledger" where
  "set_budget pf category amount st =
     (if category \<notin> set (map fst (budgets st)) then (Some Invalid_category, st)
      else case pf amount of
             None \<Rightarrow> (Some Invalid_amount, st)
           | Some a \<Rightarrow>
               if fle a (Finite 0) then (Some Must_be_positive, st)
               else (None, st\<lparr>budgets := AList.update category (Some a) (budgets st)\<rparr>))"

definition remove_all_expenses :: "ledger \<Rightarrow> ledger" where
  "remove_all_expenses st =
     st\<lparr>expenses := map (\<lambda>(cat, cur). (cat, Finite 0)) (expenses st), expense_history := []\<rparr>"

subsection \<open>Persistence\<close>

text \<open>
  The record file is the list of the rows that were handed to \<open>csv.writer\<close>, header
  included; the metadata file is the JSON object that \<open>json.load\<close> yields, a field being
  \<open>None\<close> when the key is missing. A file that does not exist is \<open>None\<close>. Metadata of
  another shape than the one \<open>save_data_to_file\<close> writes, text that is not UTF-8 and
  failures of the file system are outside this model.
\<close>

record meta =
  meta_expenses :: "(string \<times> pyfloat) list option"
  meta_budgets :: "(string \<times> pyfloat option) list option"

record files =
  data_file :: "string list list option"
  meta_file :: "meta option"

definition save_data_to_file :: "(pyfloat \<Rightarrow> string) \<Rightarrow> ledger \<Rightarrow> files" where
  "save_data_to_file ps st =
     \<lparr>data_file = Some ([''date'', ''category'', ''amount'', ''description'']
                         # map (\<lambda>(rec_date, rec_cat, rec_amt, rec_desc).
                                  [rec_date, rec_cat, ps rec_amt, rec_desc])
                               (expense_history st)),
      meta_file = Some \<lparr>meta_expenses = Some (expenses st), meta_budgets = Some (budgets st)\<rparr>\<rparr>"

text \<open>
  What \<open>csv.reader\<close> yields for a written row. \<open>save_data_to_file\<close> opens the file with
  \<open>newline=''\<close>, so every character of a field reaches the file (quoted where the format
  asks for it). \<open>load_data_from_file\<close> opens it without \<open>newline=''\<close>, so the text it
  reads has every carriage return, alone or before a line feed, turned into one line
  feed, inside quoted fields too. The reader then raises \<open>csv.Error\<close> for a field of
  more than \<open>field_size_limit\<close> characters.
\<close>

fun universal_newlines :: "string \<Rightarrow> string" where
  "universal_newlines [] = []"
| "universal_newlines (c # cs) =
     (if c = CHR 0x0D
      then (case cs of
              [] \<Rightarrow> [CHR 0x0A]
            | c' # cs' \<Rightarrow>
                if c' = CHR 0x0A then CHR 0x0A # universal_newlines cs'
                else CHR 0x0A # universal_newlines cs)
      else c # universal_newlines cs)"

definition field_size_limit :: nat where
  "field_size_limit = 131072"

definition within_limit :: "string list \<Rightarrow> bool" where
  "within_limit row = list_all (\<lambda>f. length (universal_newlines f) \<le> field_size_limit) row"

definition csv_read_row :: "string list \<Rightarrow> py_error + string list" where
  "csv_read_row row =
     (if within_limit row then Inr (map universal_newlines row) else Inl csv_Error)"

text \<open>\<open>d.update(other)\<close>: every item of \<open>other\<close>, in order, is written into \<open>d\<close>.\<close>

definition dict_update :: "('k \<times> 'v) list \<Rightarrow> ('k \<times> 'v) list \<Rightarrow> ('k \<times> 'v) list" where
  "dict_update d other = fold (\<lambda>(k, v). AList.update k v) other d"

text \<open>
  The loop over the data rows. The ledger is changed in place, so when a row raises, the
  rows before it stay loaded: the result is the exception, if any, and the ledger reached.
  A row of more than four fields raises ValueError at the tuple assignment, a row whose
  amount \<open>float\<close> rejects raises ValueError there.
\<close>

fun load_rows ::
  "(string \<Rightarrow> pyfloat option) \<Rightarrow> string list list \<Rightarrow> ledger \<Rightarrow> py_error option \<times> ledger" where
  "load_rows pf [] st = (None, st)"
| "load_rows pf (written # rows) st =
     (case csv_read_row written of
        Inl e \<Rightarrow> (Some e, st)
      | Inr row \<Rightarrow>
          (if length row < 4 then load_rows pf rows st
           else (case row of
                 [rec_date, rec_cat, rec_amt, rec_desc] \<Rightarrow>
                   (case pf rec_amt of
                      None \<Rightarrow> (Some ValueError, st)
                    | Some a \<Rightarrow>
                        load_rows pf rows
                          (st\<lparr>expense_history :=
                                expense_history st @ [(rec_date, rec_cat, a, rec_desc)],
                              expenses :=
                                (case map_of (expenses st) rec_cat of
                                   Some cur \<Rightarrow> AList.update rec_cat (fadd cur a) (expenses st)
                                 | None \<Rightarrow> AList.update rec_cat a (expenses st))\<rparr>))
               | _ \<Rightarrow> (Some ValueError, st))))"

text \<open>\<open>next(reader, None)\<close> reads the header row, if there is one, and drops it.\<close>

definition load_file_rows ::
  "(string \<Rightarrow> pyfloat option) \<Rightarrow> string list list \<Rightarrow> ledger \<Rightarrow> py_error option \<times> ledger" where
  "load_file_rows pf file_rows st =
     (case file_rows of
        [] \<Rightarrow> (None, st)
      | header # rows \<Rightarrow>
          (case csv_read_row header of
             Inl e \<Rightarrow> (Some e, st)
           | Inr headers \<Rightarrow> load_rows pf rows st))"

datatype load_message = No_previous_data | Error_loading py_error | Loaded

definition load_data_from_file ::
  "(string \<Rightarrow> pyfloat option) \<Rightarrow> files \<Rightarrow> ledger \<Rightarrow> load_message \<times> ledger" where
  "load_data_from_file pf fs st =
     (case data_file fs of
        None \<Rightarrow> (No_previous_data, st)
      | Some file_rows \<Rightarrow>
          (case load_file_rows pf file_rows st of
             (Some e, st') \<Rightarrow> (Error_loading e, st')
           | (None, st') \<Rightarrow>
               (case meta_file fs of
                  None \<Rightarrow> (Loaded, st')
                | Some m \<Rightarrow>
                    (Loaded,
                     st'\<lparr>expenses :=
                           dict_update (expenses st')
                             (case meta_expenses m of None \<Rightarrow> [] | Some e \<Rightarrow> e),
                         budgets :=
                           dict_update (budgets st')
                             (case meta_budgets m of None \<Rightarrow> [] | Some b \<Rightarrow> b)\<rparr>))))"

subsection \<open>Sequences of operations, and what the totals are compared with\<close>

text \<open>
  The menu loop applies one operation after another to the ledger. An \<open>Add\<close> carries
  the date of the day it runs on.
\<close>

datatype operation =
    Add string string string string
  | SetBudget string string
  | ResetAll

fun apply_operation :: "(string \<Rightarrow> pyfloat option) \<Rightarrow> operation \<Rightarrow> ledger \<Rightarrow> ledger" where
  "apply_operation pf (Add today category amount description) st =
     snd (add_expense pf today category amount description st)"
| "apply_operation pf (SetBudget category amount) st = snd (set_budget pf category amount st)"
| "apply_operation pf ResetAll st = remove_all_expenses st"

definition run :: "(string \<Rightarrow> pyfloat option) \<Rightarrow> operation list \<Rightarrow> ledger \<Rightarrow> ledger" where
  "run pf ops st = fold (apply_operation pf) ops st"

text \<open>
  The sum of the amounts of the records of one category: the float sum, taken in the order
  of the history. \<open>exact_category_sum\<close> is the sum of the same amounts as numbers,
  without rounding.
\<close>

definition category_sum :: "string \<Rightarrow> expense_record list \<Rightarrow> pyfloat" where
  "category_sum c h =
     py_sum (map (\<lambda>(rec_date, rec_cat, rec_amt, rec_desc). rec_amt)
                 (filter (\<lambda>(rec_date, rec_cat, rec_amt, rec_desc). rec_cat = c) h))"

definition exact_category_sum :: "string \<Rightarrow> expense_record list \<Rightarrow> rat" where
  "exact_category_sum c h =
     sum_list (map (\<lambda>(rec_date, rec_cat, rec_amt, rec_desc). fval rec_amt)
                   (filter (\<lambda>(rec_date, rec_cat, rec_amt, rec_desc). rec_cat = c) h))"

definition history_categories :: "expense_record list \<Rightarrow> string list" where
  "history_categories h = map (\<lambda>(rec_date, rec_cat, rec_amt, rec_desc). rec_cat) h"

text \<open>
  What every operation of the program keeps true of the ledger: both dicts have distinct
  keys (they are dicts), no default category is ever removed from them, and the category
  of every record is a key of \<open>expenses\<close>.
\<close>

definition ledger_wf :: "ledger \<Rightarrow> bool" where
  "ledger_wf st =
     (distinct (map fst (expenses st)) \<and> distinct (map fst (budgets st)) \<and>
      list_all (\<lambda>cat. cat \<in> set (map fst (expenses st))) DEFAULT_CATEGORIES \<and>
      list_all (\<lambda>cat. cat \<in> set (map fst (budgets st))) DEFAULT_CATEGORIES \<and>
      list_all (\<lambda>cat. cat \<in> set (map fst (expenses st)))
        (history_categories (expense_history st)))"

text \<open>
  The totals agree with the history when every total is the float sum of the amounts of
  the records of its category; the amounts of the history are positive when each of
  them is greater than zero (which NaN is not). No addition of a sequence of operations
  has a NaN amount when \<open>float\<close> yields NaN for none of their amount texts.
\<close>

definition totals_in_sync :: "ledger \<Rightarrow> bool" where
  "totals_in_sync st =
     list_all (\<lambda>(cat, cur). cur = category_sum cat (expense_history st)) (expenses st)"

definition amounts_positive :: "ledger \<Rightarrow> bool" where
  "amounts_positive st =
     list_all (\<lambda>(rec_date, rec_cat, rec_amt, rec_desc). flt (Finite 0) rec_amt)
       (expense_history st)"

definition sync_inv :: "ledger \<Rightarrow> bool" where
  "sync_inv st = (distinct (map fst (expenses st)) \<and> totals_in_sync st)"

definition no_nan_amounts :: "(string \<Rightarrow> pyfloat option) \<Rightarrow> operation list \<Rightarrow> bool" where
  "no_nan_amounts pf ops =
     list_all (\<lambda>op. case op of
                      Add today category amount description \<Rightarrow> pf amount \<noteq> Some NaN
                    | _ \<Rightarrow> True) ops"

text \<open>No total, amount or budget of the ledger is NaN.\<close>

definition has_no_nan :: "ledger \<Rightarrow> bool" where
  "has_no_nan st =
     (list_all (\<lambda>(cat, cur). cur \<noteq> NaN) (expenses st) \<and>
      list_all (\<lambda>(rec_date, rec_cat, rec_amt, rec_desc). rec_amt \<noteq> NaN) (expense_history st) \<and>
      list_all (\<lambda>(cat, budget). budget \<noteq> Some NaN) (budgets st))"

text \<open>The grand total is computed without rounding.\<close>

definition exact_total :: "ledger \<Rightarrow> bool" where
  "exact_total st = exact_sum_from (Finite 0) (map snd (expenses st))"

subsection \<open>Loading, row by row\<close>

text \<open>
  What one pass of the loop of \<open>load_rows\<close> does to the ledger for a row of four fields
  whose amount \<open>float\<close> reads as \<open>a\<close>, and the row that \<open>save_data_to_file\<close> writes
  for a record.
\<close>

definition load_record :: "expense_record \<Rightarrow> ledger \<Rightarrow> ledger" where
  "load_record r st =
     (case r of (rec_date, rec_cat, a, rec_desc) \<Rightarrow>
        st\<lparr>expense_history := expense_history st @ [(rec_date, rec_cat, a, rec_desc)],
           expenses :=
             (case map_of (expenses st) rec_cat of
                Some cur \<Rightarrow> AList.update rec_cat (fadd cur a) (expenses st)
              | None \<Rightarrow> AList.update rec_cat a (expenses st))\<rparr>)"

definition record_row :: "(pyfloat \<Rightarrow> string) \<Rightarrow> expense_record \<Rightarrow> string list" where
  "record_row ps r = (case r of (rec_date, rec_cat, rec_amt, rec_desc) \<Rightarrow>
      [rec_date, rec_cat, ps rec_amt, rec_desc])"

text \<open>
  The record that a written row stands for, when the reader yields four fields for it
  and \<open>float\<close> reads the third. A row that the loop passes is one within the field size
  limit that has fewer than four fields or stands for a record; \<open>rows_records\<close> are the
  records of such rows, in their order.
\<close>

definition row_record :: "(string \<Rightarrow> pyfloat option) \<Rightarrow> string list \<Rightarrow> expense_record option" where
  "row_record pf written =
     (case map universal_newlines written of
        [rec_date, rec_cat, rec_amt, rec_desc] \<Rightarrow>
          (case pf rec_amt of
             None \<Rightarrow> None
           | Some a \<Rightarrow> Some (rec_date, rec_cat, a, rec_desc))
      | _ \<Rightarrow> None)"

definition passes :: "(string \<Rightarrow> pyfloat option) \<Rightarrow> string list \<Rightarrow> bool" where
  "passes pf written =
     (within_limit written \<and> (length written < 4 \<or> row_record pf written \<noteq> None))"

definition rows_records ::
  "(string \<Rightarrow> pyfloat option) \<Rightarrow> string list list \<Rightarrow> expense_record list" where
  "rows_records pf rows = List.map_filter (row_record pf) rows"

text \<open>
  A field that the loader reads back as it was written: no carriage return in it, and
  not longer than the field size limit.
\<close>

definition field_ok :: "string \<Rightarrow> bool" where
  "field_ok f = (CHR 0x0D \<notin> set f \<and> length f \<le> field_size_limit)"

text \<open>
  What loading rows into the fresh ledger keeps true: the keys of \<open>expenses\<close> are the
  default categories and the categories of the records read so far, and each total is the
  sum recomputed from those records.
\<close>

definition fresh_inv :: "ledger \<Rightarrow> bool" where
  "fresh_inv st =
     (distinct (map fst (expenses st)) \<and>
      set (map fst (expenses st))
        = set DEFAULT_CATEGORIES \<union> set (history_categories (expense_history st)) \<and>
      totals_in_sync st)"


subsection \<open>The history view as the specification words it\<close>

text \<open>
  The specification's \<open>history(filterCategory?, startDate?, endDate?)\<close>: the records
  whose category equals \<open>filterCategory\<close>, whose date is at least \<open>startDate\<close> and at
  most \<open>endDate\<close>, each condition applying when its filter is given, in their original
  order. It is written from the specification, to be compared with
  \<open>view_expense_history\<close>.
\<close>

definition record_matches ::
  "string option \<Rightarrow> string option \<Rightarrow> string option \<Rightarrow> expense_record \<Rightarrow> bool" where
  "record_matches filterCategory startDate endDate r =
     (case r of (rec_date, rec_cat, rec_amt, rec_desc) \<Rightarrow>
        (case filterCategory of None \<Rightarrow> True | Some c \<Rightarrow> rec_cat = c) \<and>
        (case startDate of None \<Rightarrow> True | Some s \<Rightarrow> rec_date \<ge> s) \<and>
        (case endDate of None \<Rightarrow> True | Some e \<Rightarrow> rec_date \<le> e))"

definition history_spec ::
  "string option \<Rightarrow> string option \<Rightarrow> string option \<Rightarrow> expense_record list
     \<Rightarrow> expense_record list" where
  "history_spec filterCategory startDate endDate h =
     filter (record_matches filterCategory startDate endDate) h"

text \<open>
  The filter that \<open>view_expense_history\<close> applies for an argument: none when the
  argument is \<open>None\<close> or the empty string, both of which Python's \<open>if\<close> takes as false.
\<close>

definition supplied :: "string option \<Rightarrow> string option" where
  "supplied x = (if x = Some [] then None else x)"

subsection \<open>Concrete inputs for the examples\<close>

text \<open>
  The values of Python's \<open>float\<close> and of the text of a float on the few strings and
  numbers that the examples below use. \<open>1e16\<close> and 1 are doubles
  (\<open>1e16 = 5 ^ 16 * 2 ^ 16\<close>, and \<open>5 ^ 16 < 2 ^ 53\<close>).
\<close>

definition example_float :: "string \<Rightarrow> pyfloat option" where
  "example_float s =
     (if s = ''10.0'' then Some (Finite 10)
      else if s = ''5.0'' then Some (Finite 5)
      else if s = ''0'' then Some (Finite 0)
      else if s = ''-1'' then Some (Finite (- 1))
      else if s = ''1'' then Some (Finite 1)
      else if s = ''1e16'' then Some (Finite 10000000000000000)
      else if s = ''nan'' then Some NaN
      else None)"

definition example_str :: "pyfloat \<Rightarrow> string" where
  "example_str a =
     (if a = Finite 10 then ''10.0'' else if a = Finite 5 then ''5.0'' else ''0.0'')"

definition one_expense :: ledger where
  "one_expense =
     snd (add_expense example_float ''2024-01-01'' ''Food'' ''10.0'' ''lunch'' initial_ledger)"

text \<open>The totals of the specification's example for the top categories.\<close>

definition example_totals :: ledger where
  "example_totals =
     \<lparr>expenses = [(''Food'', Finite 50), (''Transportation'', Finite 50),
                  (''Entertainment'', Finite 10), (''Utilities'', Finite 0),
                  (''Health'', Finite 0), (''Shopping'', Finite 0),
                  (''Education'', Finite 0), (''Other'', Finite 0)],
      expense_history = [],
      budgets = map (\<lambda>cat. (cat, None)) DEFAULT_CATEGORIES\<rparr>"

text \<open>The two records of the specification's example for the history view.\<close>

definition two_records :: ledger where
  "two_records =
     initial_ledger\<lparr>expense_history :=
       [(''2024-01-01'', ''Food'', Finite 10, ''a''),
        (''2024-01-02'', ''Transportation'', Finite 5, ''b'')]\<rparr>"

text \<open>A session: two expenses, a budget, a rejected amount and a reset in between.\<close>

definition example_operations :: "operation list" where
  "example_operations =
     [Add ''2024-01-01'' ''Food'' ''10.0'' ''lunch'',
      SetBudget ''Food'' ''5.0'',
      Add ''2024-01-02'' ''Health'' ''-1'' ''refund'',
      ResetAll,
      Add ''2024-01-03'' ''Food'' ''5.0'' ''snack'',
      Add ''2024-01-03'' ''Food'' ''10.0'' ''dinner'']"

text \<open>
  Two sessions at the edge of the floats: an expense of \<open>1e16\<close> followed by an expense of
  1 in the same category, and an expense whose amount text is \<open>nan\<close>.
\<close>

definition big_total :: ledger where
  "big_total =
     snd (add_expense example_float ''2024-01-01'' ''Food'' ''1e16'' ''estate'' initial_ledger)"

definition rounding_operations :: "operation list" where
  "rounding_operations =
     [Add ''2024-01-01'' ''Food'' ''1e16'' ''estate'', Add ''2024-01-02'' ''Food'' ''1'' ''gum'']"

definition nan_operations :: "operation list" where
  "nan_operations = [Add ''2024-01-01'' ''Food'' ''nan'' ''x'']"



text \<open>The ledger that a fresh program loads after \<open>one_expense\<close> was saved.\<close>

definition one_expense_reloaded :: ledger where
  "one_expense_reloaded =
     snd (load_data_from_file example_float (save_data_to_file example_str one_expense)
            initial_ledger)"

text \<open>
  Two ledgers with one expense each: one whose description has a carriage return in it,
  and one whose description has one character more than the field size limit.
\<close>

definition cr_expense :: ledger where
  "cr_expense =
     snd (add_expense example_float ''2024-01-01'' ''Food'' ''10.0''
            [CHR ''a'', CHR 0x0D, CHR ''b''] initial_ledger)"

definition long_description :: string where
  "long_description = replicate 131073 (CHR ''x'')"

definition long_expense :: ledger where
  "long_expense =
     snd (add_expense example_float ''2024-01-01'' ''Food'' ''10.0'' long_description
            initial_ledger)"

section \<open>Properties\<close>

subsection \<open>Facts about floats\<close>

lemma fadd_zero_left: "fadd (Finite 0) a = a"
  by (cases a) simp_all

lemma fadd_zero_right: "fadd a (Finite 0) = a"
  by (cases a) simp_all

lemma flt_not_fle: "flt (Finite 0) a \<Longrightarrow> \<not> fle a (Finite 0)"
  by (cases a) simp_all

lemma accepted_positive: "\<not> fle a (Finite 0) \<Longrightarrow> a \<noteq> NaN \<Longrightarrow> flt (Finite 0) a"
  by (cases a) simp_all

lemma round_half_even_tie:
  assumes "x = of_int f + 1 / 2"
  shows "round_half_even x = (if even f then f else f + 1)"
proof -
  have "\<lfloor>x\<rfloor> = f" unfolding assms by (rule floor_unique) simp_all
  then show ?thesis by (simp add: round_half_even_def Let_def assms)
qed

lemma round_half_even_of_int: "round_half_even (of_int n) = n"
  by (simp add: round_half_even_def)

lemma pow2_nonneg_exp: "0 \<le> e \<Longrightarrow> pow2 e = 2 ^ nat e"
  by (simp add: pow2_def)

lemma pow2_neg_exp: "e \<le> 0 \<Longrightarrow> pow2 e = 1 / 2 ^ nat (- e)"
  by (cases "e = 0") (simp_all add: pow2_def)

lemma binade_bounds:
  assumes "0 < a"
  shows "pow2 (binade a) \<le> a \<and> a < pow2 (binade a + 1)"
proof (cases "1 \<le> a")
  case True
  let ?n = "\<lfloor>a\<rfloor>"
  from True have n: "0 < ?n" by simp
  from bitlen_bounds [OF n] have lo: "2 ^ nat (bitlen ?n - 1) \<le> ?n" and hi: "?n < 2 ^ nat (bitlen ?n)"
    by simp_all
  from n have b: "1 \<le> bitlen ?n" by (simp add: bitlen_alt_def)
  have "(2::rat) ^ nat (bitlen ?n - 1) = of_int (2 ^ nat (bitlen ?n - 1))" by simp
  also have "\<dots> \<le> of_int ?n" using lo by (simp only: of_int_le_iff)
  also have "\<dots> \<le> a" by simp
  finally have l: "pow2 (binade a) \<le> a"
    using True b by (simp add: binade_def pow2_nonneg_exp)
  from hi have "?n + 1 \<le> 2 ^ nat (bitlen ?n)" by simp
  then have "(of_int (?n + 1) :: rat) \<le> of_int (2 ^ nat (bitlen ?n))" by (simp only: of_int_le_iff)
  moreover have "a < of_int (?n + 1)" using floor_correct [of a] by simp
  ultimately have "a < 2 ^ nat (bitlen ?n)" by simp
  then have u: "a < pow2 (binade a + 1)"
    using True b by (simp add: binade_def pow2_nonneg_exp)
  from l u show ?thesis ..
next
  case False
  let ?r = "1 / a"
  let ?n = "\<lceil>?r\<rceil>"
  let ?k = "bitlen (?n - 1)"
  from False assms have r1: "1 < ?r" by simp
  then have n2: "2 \<le> ?n" by (simp add: le_ceiling_iff)
  then have m: "0 < ?n - 1" by simp
  from bitlen_bounds [OF m] have lo: "2 ^ nat (?k - 1) \<le> ?n - 1" and hi: "?n - 1 < 2 ^ nat ?k"
    by simp_all
  from m have k: "1 \<le> ?k" by (simp add: bitlen_alt_def)
  have "?r \<le> of_int ?n" by simp
  also have "\<dots> \<le> of_int (2 ^ nat ?k)" using hi by (simp only: of_int_le_iff)
  finally have "?r \<le> 2 ^ nat ?k" by simp
  then have "1 / 2 ^ nat ?k \<le> a"
    using assms by (simp add: field_simps)
  then have l: "pow2 (binade a) \<le> a"
    using False k by (simp add: binade_def pow2_neg_exp)
  have "(of_int (2 ^ nat (?k - 1)) :: rat) \<le> of_int (?n - 1)" using lo by (simp only: of_int_le_iff)
  also have "\<dots> < ?r" using ceiling_correct [of ?r] by simp
  finally have "2 ^ nat (?k - 1) < ?r" by simp
  then have "a < 1 / 2 ^ nat (?k - 1)"
    using assms by (simp add: field_simps)
  moreover have "pow2 (binade a + 1) = 1 / 2 ^ nat (?k - 1)"
    using False k by (simp add: binade_def pow2_neg_exp)
  ultimately have u: "a < pow2 (binade a + 1)" by simp
  from l u show ?thesis ..
qed

lemma round_double_nonneg: "0 \<le> x \<Longrightarrow> fle (Finite 0) (round_double x)"
  by (auto simp: round_double_def Let_def round_half_even_def pow2_def)

lemma fadd_nonneg:
  assumes "fle (Finite 0) x" and "flt (Finite 0) y"
  shows "fle (Finite 0) (fadd x y)"
proof (cases x)
  case (Finite p)
  show ?thesis
  proof (cases y)
    case (Finite q)
    with assms \<open>x = Finite p\<close> have "0 \<le> p + q" by simp
    then show ?thesis
      using assms unfolding \<open>x = Finite p\<close> \<open>y = Finite q\<close>
      by (simp add: round_double_nonneg)
  qed (use assms Finite in simp_all)
next
  case PosInf
  then show ?thesis using assms by (cases y) simp_all
qed (use assms in simp_all)

lemma bitlen_1e16: "bitlen 10000000000000001 = 54"
  by code_simp

lemma fadd_1e16_1: "fadd (Finite 10000000000000000) (Finite 1) = Finite 10000000000000000"
proof -
  have r: "round_half_even (10000000000000001 / 2) = 5000000000000000"
    using round_half_even_tie [of "10000000000000001 / 2" 5000000000000000] by simp
  show ?thesis
    by (simp add: round_double_def binade_def bitlen_1e16 pow2_def Let_def r)
qed

lemma py_sum_Nil: "py_sum [] = Finite 0"
  by (simp add: py_sum_def)

lemma py_sum_snoc: "py_sum (vs @ [v]) = fadd (py_sum vs) v"
  by (simp add: py_sum_def)

lemma py_sum_zeros: "py_sum (replicate n (Finite 0)) = Finite 0"
proof -
  have "fold (\<lambda>v acc. fadd acc v) (replicate n (Finite 0)) (Finite 0) = Finite 0"
    by (induction n) simp_all
  then show ?thesis by (simp add: py_sum_def)
qed

lemma exact_sum_fold:
  "exact_sum_from (Finite r) vs \<Longrightarrow>
   fold (\<lambda>v acc. fadd acc v) vs (Finite r) = Finite (r + sum_list (map fval vs))"
proof (induction vs arbitrary: r)
  case Nil
  show ?case by simp
next
  case (Cons v vs)
  from Cons.prems obtain q where v: "v = Finite q" and e: "fadd (Finite r) v = Finite (r + q)"
    by (auto simp: exact_add_def split: pyfloat.splits)
  from e v have e': "fadd (Finite r) (Finite q) = Finite (r + q)" by simp
  from Cons.prems have "exact_sum_from (Finite (r + q)) vs" by (simp add: e)
  from Cons.IH [OF this] show ?case by (simp add: v e' add.assoc del: fadd.simps)
qed

lemma exact_py_sum:
  "exact_sum_from (Finite 0) vs \<Longrightarrow> py_sum vs = Finite (sum_list (map fval vs))"
  using exact_sum_fold [of 0 vs] by (simp add: py_sum_def)

subsection \<open>Helper facts about dicts\<close>

lemma sum_list_update:
  "map_of al k = Some t \<Longrightarrow>
   sum_list (map fval (map snd (AList.update k v al)))
     = sum_list (map fval (map snd al)) - fval t + fval v"
  by (induction al) (auto split: if_splits)

lemma key_iff: "c \<in> fst ` set al \<longleftrightarrow> map_of al c \<noteq> None"
  by (simp add: map_of_eq_None_iff)

subsection \<open>Adding an expense\<close>

lemma add_expense_accepts:
  assumes "map_of (expenses st) c = Some t" and "pf amount = Some a" and "\<not> fle a (Finite 0)"
  shows "add_expense pf today c amount d st =
           (Inr (a, c),
            st\<lparr>expense_history := expense_history st @ [(today, c, a, d)],
               expenses := AList.update c (fadd t a) (expenses st)\<rparr>)"
  using assms by (simp add: add_expense_def)

text \<open>
  Claim C3, as amended. For a category \<open>c\<close> that is a key of \<open>expenses\<close> (with total
  \<open>t\<close>), an amount text that \<open>float\<close> reads as \<open>a > 0\<close> and any description \<open>d\<close>,
  \<open>add_expense\<close> succeeds and the history is the old history followed by the one record
  \<open>(today, c, a, d)\<close>. The total of \<open>c\<close> becomes the float sum of \<open>t\<close> and \<open>a\<close>, every
  other total stays as it was, and the grand total is the float sum of the totals so
  changed. When none of these additions rounds (the sum of \<open>t\<close> and \<open>a\<close> is exact, and so
  are the partial sums of the grand total before and after), the total of \<open>c\<close> and the
  grand total both grow by exactly \<open>a\<close>.
\<close>

theorem add_expense_success:
  assumes "map_of (expenses st) c = Some t" and "pf amount = Some a" and "flt (Finite 0) a"
  shows "fst (add_expense pf today c amount d st) = Inr (a, c) \<and>
         expense_history (snd (add_expense pf today c amount d st))
           = expense_history st @ [(today, c, a, d)] \<and>
         map_of (expenses (snd (add_expense pf today c amount d st))) c = Some (fadd t a) \<and>
         (\<forall>c'. c' \<noteq> c \<longrightarrow>
            map_of (expenses (snd (add_expense pf today c amount d st))) c'
              = map_of (expenses st) c') \<and>
         calculate_total_expenses (snd (add_expense pf today c amount d st))
           = py_sum (map snd (AList.update c (fadd t a) (expenses st))) \<and>
         (exact_add t a \<and> exact_total st \<and>
          exact_total (snd (add_expense pf today c amount d st)) \<longrightarrow>
            fadd t a = Finite (fval t + fval a) \<and>
            calculate_total_expenses st = Finite (fval (calculate_total_expenses st)) \<and>
            calculate_total_expenses (snd (add_expense pf today c amount d st))
              = Finite (fval (calculate_total_expenses st) + fval a))"
proof -
  let ?st' = "st\<lparr>expense_history := expense_history st @ [(today, c, a, d)],
                  expenses := AList.update c (fadd t a) (expenses st)\<rparr>"
  have add: "add_expense pf today c amount d st = (Inr (a, c), ?st')"
    using assms(1,2) flt_not_fle [OF assms(3)] by (rule add_expense_accepts)
  have exact: "fadd t a = Finite (fval t + fval a) \<and>
      calculate_total_expenses st = Finite (fval (calculate_total_expenses st)) \<and>
      calculate_total_expenses ?st' = Finite (fval (calculate_total_expenses st) + fval a)"
    if ea: "exact_add t a" and e0: "exact_total st" and e1: "exact_total ?st'"
  proof -
    from ea have s: "fadd t a = Finite (fval t + fval a)"
      by (auto simp: exact_add_def split: pyfloat.splits)
    have g0: "calculate_total_expenses st = Finite (sum_list (map fval (map snd (expenses st))))"
      using e0 unfolding exact_total_def calculate_total_expenses_def by (rule exact_py_sum)
    have "calculate_total_expenses ?st'
        = Finite (sum_list (map fval (map snd (AList.update c (fadd t a) (expenses st)))))"
      using e1 unfolding exact_total_def calculate_total_expenses_def
      by (simp add: exact_py_sum)
    also have "\<dots> = Finite (sum_list (map fval (map snd (expenses st))) + fval a)"
      unfolding sum_list_update [OF assms(1)] s by simp
    finally show ?thesis using s g0 by simp
  qed
  show ?thesis
    unfolding add fst_conv snd_conv using exact
    by (simp add: update_conv' calculate_total_expenses_def)
qed

theorem add_expense_success_witness:
  "map_of (expenses initial_ledger) ''Food'' = Some (Finite 0) \<and>
   example_float ''10.0'' = Some (Finite 10) \<and> flt (Finite 0) (Finite 10) \<and>
   exact_add (Finite 0) (Finite 10) \<and> exact_total initial_ledger \<and> exact_total one_expense \<and>
   calculate_total_expenses initial_ledger = Finite 0 \<and>
   calculate_total_expenses one_expense = Finite 10 \<and>
   map_of (expenses one_expense) ''Food'' = Some (Finite 10) \<and>
   expense_history one_expense = [(''2024-01-01'', ''Food'', Finite 10, ''lunch'')]"
proof -
  have h1: "map_of (expenses initial_ledger) ''Food'' = Some (Finite 0)"
    by (simp add: initial_ledger_def DEFAULT_CATEGORIES_def)
  have h2: "example_float ''10.0'' = Some (Finite 10)" by (simp add: example_float_def)
  have h3: "flt (Finite 0) (Finite 10)" by simp
  have h4: "exact_add (Finite 0) (Finite 10)" by (simp add: exact_add_def)
  have h5: "exact_total initial_ledger"
    by (simp add: exact_total_def initial_ledger_def DEFAULT_CATEGORIES_def exact_add_def)
  have h6: "exact_total one_expense"
    by (simp add: exact_total_def one_expense_def add_expense_def initial_ledger_def
        DEFAULT_CATEGORIES_def example_float_def exact_add_def)
  have h7: "calculate_total_expenses initial_ledger = Finite 0"
    by (simp add: calculate_total_expenses_def py_sum_def initial_ledger_def
        DEFAULT_CATEGORIES_def)
  have h8: "expense_history initial_ledger = []" by (simp add: initial_ledger_def)
  note r = add_expense_success [where st = initial_ledger and c = "''Food''" and t = "Finite 0"
      and pf = example_float and amount = "''10.0''" and a = "Finite 10"
      and today = "''2024-01-01''" and d = "''lunch''", OF h1 h2 h3, folded one_expense_def]
  from r have "expense_history one_expense
      = expense_history initial_ledger @ [(''2024-01-01'', ''Food'', Finite 10, ''lunch'')]"
    by blast
  then have c1: "expense_history one_expense = [(''2024-01-01'', ''Food'', Finite 10, ''lunch'')]"
    by (simp add: h8)
  from r have "map_of (expenses one_expense) ''Food'' = Some (fadd (Finite 0) (Finite 10))"
    by blast
  then have c2: "map_of (expenses one_expense) ''Food'' = Some (Finite 10)" by simp
  from r h4 h5 h6 have "calculate_total_expenses one_expense
      = Finite (fval (calculate_total_expenses initial_ledger) + fval (Finite 10))"
    by blast
  then have c3: "calculate_total_expenses one_expense = Finite 10" by (simp add: h7)
  from h1 h2 h3 h4 h5 h6 h7 c1 c2 c3 show ?thesis by blast
qed

lemma big_total_eq:
  "big_total =
     \<lparr>expenses = [(''Food'', Finite 10000000000000000), (''Transportation'', Finite 0),
                  (''Entertainment'', Finite 0), (''Utilities'', Finite 0),
                  (''Health'', Finite 0), (''Shopping'', Finite 0),
                  (''Education'', Finite 0), (''Other'', Finite 0)],
      expense_history = [(''2024-01-01'', ''Food'', Finite 10000000000000000, ''estate'')],
      budgets = map (\<lambda>cat. (cat, None)) DEFAULT_CATEGORIES\<rparr>"
  by (simp add: big_total_def add_expense_def initial_ledger_def DEFAULT_CATEGORIES_def
      example_float_def)

lemma add_to_big_total:
  "add_expense example_float ''2024-01-02'' ''Food'' ''1'' ''gum'' big_total =
     (Inr (Finite 1, ''Food''),
      big_total\<lparr>expense_history :=
                  expense_history big_total @ [(''2024-01-02'', ''Food'', Finite 1, ''gum'')]\<rparr>)"
proof -
  have "add_expense example_float ''2024-01-02'' ''Food'' ''1'' ''gum'' big_total =
     (Inr (Finite 1, ''Food''),
      big_total\<lparr>expense_history :=
                  expense_history big_total @ [(''2024-01-02'', ''Food'', Finite 1, ''gum'')],
                expenses :=
                  AList.update ''Food'' (fadd (Finite 10000000000000000) (Finite 1))
                    (expenses big_total)\<rparr>)"
    by (rule add_expense_accepts) (simp_all add: big_total_eq example_float_def)
  then show ?thesis
    unfolding fadd_1e16_1 by (simp add: big_total_eq)
qed

text \<open>
  The claim as it is stated fails, because floats round: with a total of \<open>1e16\<close> on
  Food, adding 1 to Food succeeds and leaves the total of Food and the grand total at
  \<open>1e16\<close>.
\<close>

theorem add_expense_rounds_counterexample:
  "map_of (expenses big_total) ''Food'' = Some (Finite 10000000000000000) \<and>
   calculate_total_expenses big_total = Finite 10000000000000000 \<and>
   example_float ''1'' = Some (Finite 1) \<and>
   fst (add_expense example_float ''2024-01-02'' ''Food'' ''1'' ''gum'' big_total)
     = Inr (Finite 1, ''Food'') \<and>
   map_of (expenses (snd (add_expense example_float ''2024-01-02'' ''Food'' ''1'' ''gum'' big_total)))
     ''Food'' = Some (Finite 10000000000000000) \<and>
   calculate_total_expenses
     (snd (add_expense example_float ''2024-01-02'' ''Food'' ''1'' ''gum'' big_total))
     = Finite 10000000000000000"
  unfolding add_to_big_total
  by (simp add: big_total_eq calculate_total_expenses_def py_sum_def example_float_def)

subsection \<open>Failures of adding and of setting a budget\<close>



text \<open>
  Claim C10. The category is validated first: with a category that is not a key,
  \<open>add_expense\<close> and \<open>set_budget\<close> report the invalid category whatever the amount is (so
  also when \<open>float\<close> rejects it or when it is not positive), and the ledger is unchanged.
  \<open>add_expense\<close> looks the category up in \<open>expenses\<close>, \<open>set_budget\<close> in \<open>budgets\<close>.
\<close>

theorem category_checked_before_amount:
  "(c \<notin> set (map fst (expenses st)) \<longrightarrow>
      add_expense pf today c amount d st = (Inl Invalid_category, st)) \<and>
   (c \<notin> set (map fst (budgets st)) \<longrightarrow>
      set_budget pf c amount st = (Some Invalid_category, st))"
  by (simp add: add_expense_def set_budget_def key_iff)

theorem category_checked_before_amount_witness:
  "example_float ''ten'' = None \<and> example_float ''-1'' = Some (Finite (- 1)) \<and>
   add_expense example_float ''2024-01-01'' ''Rent'' ''ten'' ''x'' initial_ledger
     = (Inl Invalid_category, initial_ledger) \<and>
   add_expense example_float ''2024-01-01'' ''Rent'' ''-1'' ''x'' initial_ledger
     = (Inl Invalid_category, initial_ledger) \<and>
   set_budget example_float ''Rent'' ''ten'' initial_ledger = (Some Invalid_category, initial_ledger) \<and>
   set_budget example_float ''Rent'' ''-1'' initial_ledger = (Some Invalid_category, initial_ledger)"
proof -
  have k1: "''Rent'' \<notin> set (map fst (expenses initial_ledger))"
    by (simp add: initial_ledger_def DEFAULT_CATEGORIES_def)
  have k2: "''Rent'' \<notin> set (map fst (budgets initial_ledger))"
    by (simp add: initial_ledger_def DEFAULT_CATEGORIES_def)
  have p: "example_float ''ten'' = None \<and> example_float ''-1'' = Some (Finite (- 1))"
    by (simp add: example_float_def)
  show ?thesis
    using category_checked_before_amount [of "''Rent''" initial_ledger example_float "''2024-01-01''" "''ten''" "''x''"]
      category_checked_before_amount [of "''Rent''" initial_ledger example_float "''2024-01-01''" "''-1''" "''x''"]
      k1 k2 p
    by simp
qed

subsection \<open>Resetting\<close>

text \<open>
  Claim C7. \<open>remove_all_expenses\<close> keeps the categories and sets the total of each to
  zero, empties the history and leaves \<open>budgets\<close> as it was; whatever the ledger was
  before, the grand total is then 0 and the unfiltered history view is empty.
\<close>

theorem remove_all_expenses_resets:
  "map fst (expenses (remove_all_expenses st)) = map fst (expenses st) \<and>
   map snd (expenses (remove_all_expenses st)) = replicate (length (expenses st)) (Finite 0) \<and>
   expense_history (remove_all_expenses st) = [] \<and>
   budgets (remove_all_expenses st) = budgets st \<and>
   calculate_total_expenses (remove_all_expenses st) = Finite 0 \<and>
   view_expense_history None None None (remove_all_expenses st) = []"
proof -
  have keys: "map fst (map (\<lambda>(cat, cur). (cat, Finite 0)) xs) = map fst xs"
    for xs :: "(string \<times> pyfloat) list"
    by (induction xs) auto
  have vals: "map snd (map (\<lambda>(cat, cur). (cat, Finite 0)) xs) = replicate (length xs) (Finite 0)"
    for xs :: "(string \<times> pyfloat) list"
    by (induction xs) auto
  have e: "expenses (remove_all_expenses st) = map (\<lambda>(cat, cur). (cat, Finite 0)) (expenses st)"
    by (simp add: remove_all_expenses_def)
  have "calculate_total_expenses (remove_all_expenses st) = Finite 0"
    unfolding calculate_total_expenses_def by (simp only: e vals py_sum_zeros)
  moreover have "map fst (expenses (remove_all_expenses st)) = map fst (expenses st)"
    by (simp only: e keys)
  moreover have "map snd (expenses (remove_all_expenses st))
      = replicate (length (expenses st)) (Finite 0)"
    by (simp only: e vals)
  ultimately show ?thesis
    by (simp add: remove_all_expenses_def view_expense_history_def)
qed

subsection \<open>The highest spending categories\<close>

lemma fle_refl: "x \<noteq> NaN \<Longrightarrow> fle x x"
  by (cases x) simp_all

lemma fle_trans: "fle x y \<Longrightarrow> fle y z \<Longrightarrow> fle x z"
  by (cases x; cases y; cases z) simp_all

lemma not_flt_fle: "x \<noteq> NaN \<Longrightarrow> y \<noteq> NaN \<Longrightarrow> \<not> flt x y \<Longrightarrow> fle y x"
  by (cases x; cases y) simp_all

lemma flt_fle: "flt x y \<Longrightarrow> fle x y"
  by (cases x; cases y) simp_all

lemma feq_iff: "x \<noteq> NaN \<Longrightarrow> y \<noteq> NaN \<Longrightarrow> feq x y \<longleftrightarrow> x = y"
  by (simp add: feq_def)

lemma py_max_is_maximum:
  assumes "NaN \<notin> set (v # vs)"
  shows "py_max v vs \<in> set (v # vs) \<and> (\<forall>x \<in> set (v # vs). fle x (py_max v vs))"
  using assms unfolding py_max_def
proof (induction vs arbitrary: v)
  case Nil
  then show ?case by (simp add: fle_refl)
next
  case (Cons w vs)
  let ?m = "if flt v w then w else v"
  from Cons.prems have nn: "NaN \<notin> set (?m # vs)" and v: "v \<noteq> NaN" and w: "w \<noteq> NaN"
    by auto
  from Cons.IH [OF nn] have
    mem: "fold (\<lambda>item m. if flt m item then item else m) vs ?m \<in> set (?m # vs)"
    and ub: "\<forall>x \<in> set (?m # vs). fle x (fold (\<lambda>item m. if flt m item then item else m) vs ?m)"
    by blast+
  have both: "fle v ?m \<and> fle w ?m"
    using v w by (auto simp: fle_refl flt_fle not_flt_fle)
  from ub have top: "fle ?m (fold (\<lambda>item m. if flt m item then item else m) vs ?m)" by simp
  have "fle v (fold (\<lambda>item m. if flt m item then item else m) vs ?m)"
    and "fle w (fold (\<lambda>item m. if flt m item then item else m) vs ?m)"
    using both top by (blast intro: fle_trans)+
  with mem ub show ?case by auto
qed

lemma set_top_cats:
  "set (map fst (filter (\<lambda>(cat, amt). amt = m) al)) = {c. (c, m) \<in> set al}"
  by force

lemma distinct_top_cats:
  "distinct (map fst al) \<Longrightarrow> distinct (map fst (filter P al))"
  by (simp add: distinct_map_filter)

lemma filter_feq:
  assumes "NaN \<notin> snd ` set al" and "m \<noteq> NaN"
  shows "filter (\<lambda>(cat, amt). feq amt m) al = filter (\<lambda>(cat, amt). amt = m) al"
proof (rule filter_cong [OF refl])
  fix p assume "p \<in> set al"
  with assms(1) have "snd p \<noteq> NaN" by force
  with assms(2) show "(case p of (cat, amt) \<Rightarrow> feq amt m) = (case p of (cat, amt) \<Rightarrow> amt = m)"
    by (cases p) (simp add: feq_def)
qed

text \<open>
  Claim C8. Take a ledger with at least one category and no NaN among its totals (NaN
  compares false with everything, so that totals with a NaN among them have no maximum).
  Then the totals have a maximum \<open>m\<close>: one of them, and at least every one of them. If
  \<open>m = 0\<close>, \<open>find_highest_spending_category\<close> returns \<open>(None, 0)\<close>, the "nothing to
  analyze" signal. Otherwise it returns \<open>m\<close> and a list whose elements are exactly the
  categories with total \<open>m\<close>, every tied category among them, each once. The witness
  is the specification's example: Food and Transportation at 50.
\<close>

theorem find_highest_spending_category_correct:
  assumes "expenses st \<noteq> []" and "NaN \<notin> snd ` set (expenses st)"
  shows "\<exists>m. m \<in> snd ` set (expenses st) \<and> (\<forall>v \<in> snd ` set (expenses st). fle v m) \<and>
           (m = Finite 0 \<longrightarrow> find_highest_spending_category st = Inr (None, Finite 0)) \<and>
           (m \<noteq> Finite 0 \<longrightarrow>
              (\<exists>top_cats.
                 find_highest_spending_category st = Inr (Some top_cats, m) \<and>
                 set top_cats = {c. (c, m) \<in> set (expenses st)} \<and>
                 (distinct (map fst (expenses st)) \<longrightarrow> distinct top_cats)))"
proof -
  from assms(1) obtain v vs where vs: "map snd (expenses st) = v # vs"
    by (cases "expenses st") auto
  then have s: "set (v # vs) = snd ` set (expenses st)"
    by (metis list.set_map)
  with assms(2) have nn: "NaN \<notin> set (v # vs)" by simp
  let ?m = "py_max v vs"
  from py_max_is_maximum [OF nn] have mem: "?m \<in> snd ` set (expenses st)"
    and ub: "\<forall>x \<in> snd ` set (expenses st). fle x ?m"
    unfolding s by blast+
  from mem assms(2) have m: "?m \<noteq> NaN" by metis
  have z: "feq ?m (Finite 0) \<longleftrightarrow> ?m = Finite 0" using m by (simp add: feq_def)
  have f: "filter (\<lambda>(cat, amt). feq amt ?m) (expenses st)
      = filter (\<lambda>(cat, amt). amt = ?m) (expenses st)"
    using assms(2) m by (rule filter_feq)
  have r: "find_highest_spending_category st =
      (if ?m = Finite 0 then Inr (None, Finite 0)
       else Inr (Some (map fst (filter (\<lambda>(cat, amt). amt = ?m) (expenses st))), ?m))"
    unfolding find_highest_spending_category_def vs f [symmetric]
    by (simp only: list.case Let_def z)
  have "(?m = Finite 0 \<longrightarrow> find_highest_spending_category st = Inr (None, Finite 0)) \<and>
        (?m \<noteq> Finite 0 \<longrightarrow>
           (\<exists>top_cats.
              find_highest_spending_category st = Inr (Some top_cats, ?m) \<and>
              set top_cats = {c. (c, ?m) \<in> set (expenses st)} \<and>
              (distinct (map fst (expenses st)) \<longrightarrow> distinct top_cats)))"
    unfolding r using set_top_cats [of ?m "expenses st"] distinct_top_cats [of "expenses st"]
    by auto
  with mem ub show ?thesis by blast
qed

theorem find_highest_spending_category_correct_witness:
  "expenses example_totals \<noteq> [] \<and> expenses initial_ledger \<noteq> [] \<and>
   find_highest_spending_category example_totals
     = Inr (Some [''Food'', ''Transportation''], Finite 50) \<and>
   find_highest_spending_category initial_ledger = Inr (None, Finite 0)"
proof -
  have h1: "expenses example_totals \<noteq> []" by (simp add: example_totals_def)
  have n1: "NaN \<notin> snd ` set (expenses example_totals)" by (simp add: example_totals_def)
  have h2: "expenses initial_ledger \<noteq> []" by (simp add: initial_ledger_def DEFAULT_CATEGORIES_def)
  have n2: "NaN \<notin> snd ` set (expenses initial_ledger)"
    by (simp add: initial_ledger_def DEFAULT_CATEGORIES_def)
  have z: "snd ` set (expenses initial_ledger) = {Finite 0}"
    by (simp add: initial_ledger_def DEFAULT_CATEGORIES_def)
  from find_highest_spending_category_correct [OF h2 n2]
  have r2: "find_highest_spending_category initial_ledger = Inr (None, Finite 0)"
    unfolding z by auto
  from find_highest_spending_category_correct [OF h1 n1] obtain m where
    mem: "m \<in> snd ` set (expenses example_totals)"
    and ub: "\<forall>v \<in> snd ` set (expenses example_totals). fle v m"
    and top: "m \<noteq> Finite 0 \<longrightarrow>
           (\<exists>top_cats.
              find_highest_spending_category example_totals = Inr (Some top_cats, m) \<and>
              set top_cats = {c. (c, m) \<in> set (expenses example_totals)} \<and>
              (distinct (map fst (expenses example_totals)) \<longrightarrow> distinct top_cats))"
    by blast
  from ub have "fle (Finite 50) m" by (simp add: example_totals_def)
  with mem have m: "m = Finite 50" by (auto simp: example_totals_def)
  with top obtain top_cats where
    "find_highest_spending_category example_totals = Inr (Some top_cats, Finite 50)"
    by auto
  moreover have "find_highest_spending_category example_totals
      = Inr (Some [''Food'', ''Transportation''], Finite 50)"
    by (simp add: find_highest_spending_category_def example_totals_def py_max_def feq_def)
  ultimately show ?thesis using h1 h2 r2 by simp
qed

subsection \<open>The history view\<close>

lemma filter_history_Cons:
  "filter_history fc sd ed (r # h) =
     (if record_matches (supplied fc) (supplied sd) (supplied ed) r
      then r # filter_history fc sd ed h else filter_history fc sd ed h)"
  by (cases r) (auto simp: record_matches_def supplied_def not_less split: option.splits)

lemma filter_history_eq:
  "filter_history fc sd ed h = history_spec (supplied fc) (supplied sd) (supplied ed) h"
  by (induction h) (simp_all add: filter_history_Cons history_spec_def del: filter_history.simps(2))

lemma record_matches_empty_start:
  "record_matches fc (Some []) ed = record_matches fc None ed"
proof
  fix r show "record_matches fc (Some []) ed r = record_matches fc None ed r"
    by (cases r) (simp add: record_matches_def)
qed

text \<open>
  Claim C9. For every ledger and every combination of filters, each of them absent or
  given, \<open>view_expense_history\<close> returns, in their original order, exactly the records
  that satisfy all the filters given: category equal to the category filter, date at
  least the start date and at most the end date, both bounds included. The result may
  be empty. A category or an end date is a non-empty string (the caller passes \<open>None\<close>
  for an empty input, and the function itself takes an empty string as no filter).
\<close>

theorem view_expense_history_filters:
  assumes "filter_category \<noteq> Some []" and "end_date \<noteq> Some []"
  shows "view_expense_history filter_category start_date end_date st
           = history_spec filter_category start_date end_date (expense_history st)"
proof -
  have "history_spec filter_category (supplied start_date) end_date (expense_history st)
      = history_spec filter_category start_date end_date (expense_history st)"
    by (simp add: history_spec_def supplied_def record_matches_empty_start)
  then show ?thesis
    using assms by (simp add: view_expense_history_def filter_history_eq supplied_def)
qed

theorem view_expense_history_filters_witness:
  "view_expense_history (Some ''Food'') None None two_records
     = [(''2024-01-01'', ''Food'', Finite 10, ''a'')] \<and>
   view_expense_history None (Some ''2024-01-02'') (Some ''2024-01-02'') two_records
     = [(''2024-01-02'', ''Transportation'', Finite 5, ''b'')] \<and>
   view_expense_history (Some ''Food'') (Some ''2024-01-01'') (Some ''2024-01-31'') two_records
     = [(''2024-01-01'', ''Food'', Finite 10, ''a'')] \<and>
   view_expense_history (Some ''Health'') None None two_records = []"
  using
    view_expense_history_filters [where filter_category = "Some ''Food''"
      and start_date = None and end_date = None and st = two_records]
    view_expense_history_filters [where filter_category = None
      and start_date = "Some ''2024-01-02''" and end_date = "Some ''2024-01-02''"
      and st = two_records]
    view_expense_history_filters [where filter_category = "Some ''Food''"
      and start_date = "Some ''2024-01-01''" and end_date = "Some ''2024-01-31''"
      and st = two_records]
    view_expense_history_filters [where filter_category = "Some ''Health''"
      and start_date = None and end_date = None and st = two_records]
  by (simp add: history_spec_def record_matches_def two_records_def)

subsection \<open>Totals and history stay in sync\<close>

lemma category_sum_Nil: "category_sum c [] = Finite 0"
  by (simp add: category_sum_def py_sum_def)

lemma category_sum_snoc:
  "category_sum c (h @ [(d, c', a, x)])
     = (if c' = c then fadd (category_sum c h) a else category_sum c h)"
  by (simp add: category_sum_def py_sum_snoc)

lemma py_sum_nonneg:
  "list_all (flt (Finite 0)) vs \<Longrightarrow> fle (Finite 0) acc \<Longrightarrow>
   fle (Finite 0) (fold (\<lambda>v acc. fadd acc v) vs acc)"
  by (induction vs arbitrary: acc) (simp_all add: fadd_nonneg)

lemma category_sum_nonneg:
  assumes "list_all (\<lambda>(rec_date, rec_cat, rec_amt, rec_desc). flt (Finite 0) rec_amt) h"
  shows "fle (Finite 0) (category_sum c h)"
proof -
  have "list_all (flt (Finite 0))
      (map (\<lambda>(rec_date, rec_cat, rec_amt, rec_desc). rec_amt)
         (filter (\<lambda>(rec_date, rec_cat, rec_amt, rec_desc). rec_cat = c) h))"
    using assms by (auto simp: list_all_iff)
  then show ?thesis
    unfolding category_sum_def py_sum_def by (rule py_sum_nonneg) simp
qed

lemma totals_in_sync_iff:
  "distinct (map fst (expenses st)) \<Longrightarrow>
   totals_in_sync st \<longleftrightarrow>
     (\<forall>c t. map_of (expenses st) c = Some t \<longrightarrow> t = category_sum c (expense_history st))"
  by (auto simp: totals_in_sync_def list_all_iff)

lemma sync_inv_initial: "sync_inv initial_ledger"
  by (simp add: sync_inv_def totals_in_sync_def initial_ledger_def
      DEFAULT_CATEGORIES_def category_sum_Nil)

lemma map_of_zeroed:
  "map_of (map (\<lambda>(cat, cur). (cat, Finite 0)) al) c = map_option (\<lambda>_. Finite 0) (map_of al c)"
  by (induction al) auto

lemma keys_zeroed: "map fst (map (\<lambda>(cat, cur). (cat, Finite 0)) al) = map fst al"
  by (induction al) auto

lemma expenses_remove_all:
  "expenses (remove_all_expenses st) = map (\<lambda>(cat, cur). (cat, Finite 0)) (expenses st)"
  by (simp add: remove_all_expenses_def)

lemma add_expense_cases:
  obtains (rejected) "snd (add_expense pf today c amount d st) = st"
  | (accepted) t a where "map_of (expenses st) c = Some t" and "pf amount = Some a"
      and "\<not> fle a (Finite 0)"
      and "snd (add_expense pf today c amount d st)
             = st\<lparr>expense_history := expense_history st @ [(today, c, a, d)],
                  expenses := AList.update c (fadd t a) (expenses st)\<rparr>"
proof (cases "map_of (expenses st) c")
  case None
  then have "snd (add_expense pf today c amount d st) = st" by (simp add: add_expense_def)
  then show ?thesis by (rule rejected)
next
  case (Some t)
  show ?thesis
  proof (cases "pf amount")
    case None
    with Some have "snd (add_expense pf today c amount d st) = st"
      by (simp add: add_expense_def)
    then show ?thesis by (rule rejected)
  next
    case (Some a)
    show ?thesis
    proof (cases "fle a (Finite 0)")
      case True
      with Some \<open>map_of (expenses st) c = Some t\<close>
      have "snd (add_expense pf today c amount d st) = st"
        by (simp add: add_expense_def)
      then show ?thesis by (rule rejected)
    next
      case False
      with Some \<open>map_of (expenses st) c = Some t\<close> show ?thesis
        by (intro accepted [of t a]) (simp_all add: add_expense_def)
    qed
  qed
qed

lemma sync_inv_add_expense:
  assumes "sync_inv st"
  shows "sync_inv (snd (add_expense pf today c amount d st))"
proof (cases pf today c amount d st rule: add_expense_cases)
  case rejected
  with assms show ?thesis by simp
next
  case (accepted t a)
  let ?st' = "st\<lparr>expense_history := expense_history st @ [(today, c, a, d)],
                  expenses := AList.update c (fadd t a) (expenses st)\<rparr>"
  have d: "distinct (map fst (expenses st))" and s: "totals_in_sync st"
    using assms by (simp_all add: sync_inv_def)
  have d': "distinct (map fst (expenses ?st'))"
    using d by (simp add: distinct_update)
  have "totals_in_sync ?st'"
    unfolding totals_in_sync_iff [OF d']
    using s accepted(1) unfolding totals_in_sync_iff [OF d]
    by (auto simp: update_conv' category_sum_snoc)
  then show ?thesis
    unfolding accepted(4) sync_inv_def using d' by simp
qed

lemma sync_inv_set_budget:
  "sync_inv st \<Longrightarrow> sync_inv (snd (set_budget pf c amount st))"
  by (auto simp: set_budget_def sync_inv_def totals_in_sync_def split: option.splits)

lemma sync_inv_remove_all_expenses:
  assumes "sync_inv st"
  shows "sync_inv (remove_all_expenses st)"
proof -
  have "map fst (expenses (remove_all_expenses st)) = map fst (expenses st)"
    by (simp only: expenses_remove_all keys_zeroed)
  then have d: "distinct (map fst (expenses (remove_all_expenses st)))"
    using assms by (simp add: sync_inv_def)
  have "totals_in_sync (remove_all_expenses st)"
    unfolding totals_in_sync_iff [OF d]
    by (auto simp: remove_all_expenses_def map_of_zeroed category_sum_Nil)
  then show ?thesis
    using d by (simp add: sync_inv_def)
qed

lemma sync_inv_apply_operation: "sync_inv st \<Longrightarrow> sync_inv (apply_operation pf op st)"
  by (cases op)
    (simp_all add: sync_inv_add_expense sync_inv_set_budget sync_inv_remove_all_expenses)

lemma sync_inv_run: "sync_inv st \<Longrightarrow> sync_inv (run pf ops st)"
  unfolding run_def by (induction ops arbitrary: st) (simp_all add: sync_inv_apply_operation)

lemma amounts_positive_apply_operation:
  assumes "amounts_positive st"
    and "case op of Add today category amount description \<Rightarrow> pf amount \<noteq> Some NaN | _ \<Rightarrow> True"
  shows "amounts_positive (apply_operation pf op st)"
proof (cases op)
  case (Add today c amount d)
  show ?thesis
  proof (cases pf today c amount d st rule: add_expense_cases)
    case rejected
    with assms(1) Add show ?thesis by simp
  next
    case (accepted t a)
    from assms(2) Add accepted(2) have "a \<noteq> NaN" by simp
    with accepted(3) have "flt (Finite 0) a" by (simp add: accepted_positive)
    with assms(1) show ?thesis
      unfolding Add apply_operation.simps accepted(4) by (simp add: amounts_positive_def)
  qed
next
  case (SetBudget c amount)
  with assms(1) show ?thesis
    by (auto simp: set_budget_def amounts_positive_def split: option.splits)
next
  case ResetAll
  then show ?thesis by (simp add: remove_all_expenses_def amounts_positive_def)
qed

lemma amounts_positive_run:
  "amounts_positive st \<Longrightarrow> no_nan_amounts pf ops \<Longrightarrow> amounts_positive (run pf ops st)"
  unfolding run_def no_nan_amounts_def
  by (induction ops arbitrary: st) (simp_all add: amounts_positive_apply_operation)

text \<open>
  Claim C6, as amended. Start from the empty ledger and apply any sequence of additions,
  budget settings and resets (with any dates, categories, amounts and descriptions,
  accepted or rejected). Then every entry \<open>(c, t)\<close> of \<open>expenses\<close> has for \<open>t\<close> the
  float sum, taken in the order of the history, of the amounts of the history records of
  category \<open>c\<close>. When \<open>float\<close> yields NaN for none of the amount texts of the additions,
  \<open>t\<close> is \<open>==\<close> to that sum and \<open>t\<close> is not negative.
\<close>

theorem totals_in_sync_with_history:
  assumes "(c, t) \<in> set (expenses (run pf ops initial_ledger))"
  shows "t = category_sum c (expense_history (run pf ops initial_ledger)) \<and>
         (no_nan_amounts pf ops \<longrightarrow>
            feq t (category_sum c (expense_history (run pf ops initial_ledger))) \<and>
            fle (Finite 0) t)"
proof -
  have inv: "sync_inv (run pf ops initial_ledger)"
    using sync_inv_initial by (rule sync_inv_run)
  then have t: "t = category_sum c (expense_history (run pf ops initial_ledger))"
    using assms by (auto simp: sync_inv_def totals_in_sync_def list_all_iff)
  have nonneg: "fle (Finite 0) (category_sum c (expense_history (run pf ops initial_ledger)))"
    if "no_nan_amounts pf ops"
  proof -
    have "amounts_positive initial_ledger"
      by (simp add: amounts_positive_def initial_ledger_def)
    then have "amounts_positive (run pf ops initial_ledger)"
      using that by (rule amounts_positive_run)
    then show ?thesis
      unfolding amounts_positive_def by (rule category_sum_nonneg)
  qed
  have "feq x x" if "fle (Finite 0) x" for x
    using that by (cases x) (simp_all add: feq_def)
  with nonneg t show ?thesis by simp
qed

lemma bitlen_15: "bitlen 15 = 4"
  by code_simp

lemma fadd_5_10: "fadd (Finite 5) (Finite 10) = Finite 15"
proof -
  have "round_half_even (15 * 2 ^ 49) = 15 * 2 ^ 49"
    using round_half_even_of_int [of "15 * 2 ^ 49"] by simp
  then show ?thesis
    by (simp add: round_double_def binade_def bitlen_15 pow2_def Let_def)
qed

lemma run_example:
  "run example_float example_operations initial_ledger =
     \<lparr>expenses = [(''Food'', Finite 15), (''Transportation'', Finite 0),
                  (''Entertainment'', Finite 0), (''Utilities'', Finite 0),
                  (''Health'', Finite 0), (''Shopping'', Finite 0),
                  (''Education'', Finite 0), (''Other'', Finite 0)],
      expense_history = [(''2024-01-03'', ''Food'', Finite 5, ''snack''),
                         (''2024-01-03'', ''Food'', Finite 10, ''dinner'')],
      budgets = [(''Food'', Some (Finite 5)), (''Transportation'', None),
                 (''Entertainment'', None), (''Utilities'', None), (''Health'', None),
                 (''Shopping'', None), (''Education'', None), (''Other'', None)]\<rparr>"
  by (simp add: run_def example_operations_def add_expense_def set_budget_def
      remove_all_expenses_def initial_ledger_def DEFAULT_CATEGORIES_def example_float_def
      fadd_zero_left fadd_5_10 del: fadd.simps)

theorem totals_in_sync_with_history_witness:
  "(''Food'', Finite 15) \<in> set (expenses (run example_float example_operations initial_ledger)) \<and>
   no_nan_amounts example_float example_operations \<and>
   category_sum ''Food'' (expense_history (run example_float example_operations initial_ledger))
     = Finite 15 \<and>
   feq (Finite 15)
     (category_sum ''Food'' (expense_history (run example_float example_operations initial_ledger)))"
proof -
  have h: "(''Food'', Finite 15)
      \<in> set (expenses (run example_float example_operations initial_ledger))"
    unfolding run_example by simp
  have n: "no_nan_amounts example_float example_operations"
    by (simp add: no_nan_amounts_def example_operations_def example_float_def)
  from totals_in_sync_with_history [OF h] h n show ?thesis by metis
qed

lemma run_nan:
  "run example_float nan_operations initial_ledger =
     initial_ledger
       \<lparr>expense_history := [(''2024-01-01'', ''Food'', NaN, ''x'')],
        expenses := [(''Food'', NaN), (''Transportation'', Finite 0),
                     (''Entertainment'', Finite 0), (''Utilities'', Finite 0),
                     (''Health'', Finite 0), (''Shopping'', Finite 0),
                     (''Education'', Finite 0), (''Other'', Finite 0)]\<rparr>"
  by (simp add: run_def nan_operations_def add_expense_def initial_ledger_def
      DEFAULT_CATEGORIES_def example_float_def)

lemma run_rounding:
  "run example_float rounding_operations initial_ledger =
     big_total\<lparr>expense_history :=
                 expense_history big_total @ [(''2024-01-02'', ''Food'', Finite 1, ''gum'')]\<rparr>"
  by (simp add: run_def rounding_operations_def add_to_big_total big_total_def [symmetric])

text \<open>
  The claim as it is stated fails twice. The amount text \<open>nan\<close> is accepted (NaN is not
  \<open><= 0\<close>), and the total of its category is then NaN, which is not \<open>>= 0\<close> and not
  \<open>==\<close> to any sum. And a total is a rounded sum: after expenses of \<open>1e16\<close> and of 1
  on Food the total of Food is \<open>1e16\<close>, while the amounts of its records add up to
  \<open>1e16 + 1\<close>.
\<close>

theorem totals_in_sync_counterexample:
  "(''Food'', NaN) \<in> set (expenses (run example_float nan_operations initial_ledger)) \<and>
   \<not> fle (Finite 0) NaN \<and>
   \<not> feq NaN (category_sum ''Food''
               (expense_history (run example_float nan_operations initial_ledger))) \<and>
   (''Food'', Finite 10000000000000000)
     \<in> set (expenses (run example_float rounding_operations initial_ledger)) \<and>
   exact_category_sum ''Food''
     (expense_history (run example_float rounding_operations initial_ledger))
     = 10000000000000001"
  unfolding run_nan run_rounding
  by (simp add: big_total_eq exact_category_sum_def feq_def initial_ledger_def)

subsection \<open>Reading rows back\<close>

lemma universal_newlines_id: "CHR 0x0D \<notin> set f \<Longrightarrow> universal_newlines f = f"
  by (induction f) auto

lemma within_limit_ok: "list_all field_ok row \<Longrightarrow> within_limit row"
  by (auto simp: within_limit_def field_ok_def list_all_iff universal_newlines_id)

lemma read_ok: "list_all field_ok row \<Longrightarrow> map universal_newlines row = row"
  by (induction row) (simp_all add: field_ok_def universal_newlines_id)

lemma csv_read_row_ok: "list_all field_ok row \<Longrightarrow> csv_read_row row = Inr row"
  by (simp add: csv_read_row_def within_limit_ok read_ok)

lemma csv_read_row_within:
  "within_limit written \<Longrightarrow> csv_read_row written = Inr (map universal_newlines written)"
  by (simp add: csv_read_row_def)

subsection \<open>The loop over the rows\<close>

lemma load_rows_over_limit:
  "\<not> within_limit written \<Longrightarrow> load_rows pf (written # rows) st = (Some csv_Error, st)"
  by (simp add: csv_read_row_def)

lemma load_rows_short_row:
  "within_limit written \<Longrightarrow> length written < 4 \<Longrightarrow>
   load_rows pf (written # rows) st = load_rows pf rows st"
  by (simp add: csv_read_row_def)

lemma load_rows_long_row:
  "within_limit written \<Longrightarrow> 4 < length written \<Longrightarrow>
   load_rows pf (written # rows) st = (Some ValueError, st)"
  by (auto simp: csv_read_row_def split: list.splits)

lemma load_rows_bad_amount:
  "within_limit written \<Longrightarrow>
   map universal_newlines written = [rec_date, rec_cat, rec_amt, rec_desc] \<Longrightarrow>
   pf rec_amt = None \<Longrightarrow>
   load_rows pf (written # rows) st = (Some ValueError, st)"
  by (simp add: csv_read_row_def)

lemma load_rows_record:
  assumes "within_limit written" and "row_record pf written = Some r"
  shows "load_rows pf (written # rows) st = load_rows pf rows (load_record r st)"
proof -
  from assms(2) obtain rec_date rec_cat rec_amt rec_desc a where
    row: "map universal_newlines written = [rec_date, rec_cat, rec_amt, rec_desc]"
    and a: "pf rec_amt = Some a" and r: "r = (rec_date, rec_cat, a, rec_desc)"
    by (auto simp: row_record_def split: list.splits option.splits)
  show ?thesis
    using assms(1) by (simp add: csv_read_row_def row a r load_record_def)
qed

lemma row_cases:
  obtains (over_limit) "\<not> within_limit written"
  | (short) "within_limit written" and "length written < 4"
  | (bad_amount) rec_date rec_cat rec_amt rec_desc where "within_limit written"
      and "map universal_newlines written = [rec_date, rec_cat, rec_amt, rec_desc]"
      and "pf rec_amt = None"
  | (has_record) r where "within_limit written" and "\<not> length written < 4"
      and "row_record pf written = Some r"
  | (long) "within_limit written" and "4 < length written"
proof (cases "within_limit written")
  case False
  then show ?thesis by (rule over_limit)
next
  case w: True
  show ?thesis
  proof (cases "length written < 4")
    case True
    with w show ?thesis by (rule short)
  next
    case False
    show ?thesis
    proof (cases "4 < length written")
      case True
      with w show ?thesis by (rule long)
    next
      case False
      with \<open>\<not> length written < 4\<close> have "length (map universal_newlines written) = 4" by simp
      then obtain rec_date rec_cat rec_amt rec_desc where
        row: "map universal_newlines written = [rec_date, rec_cat, rec_amt, rec_desc]"
        by (auto simp: length_Suc_conv numeral_eq_Suc)
      show ?thesis
      proof (cases "pf rec_amt")
        case None
        with w row show ?thesis by (rule bad_amount)
      next
        case (Some a)
        with row have "row_record pf written = Some (rec_date, rec_cat, a, rec_desc)"
          by (simp add: row_record_def)
        with w \<open>\<not> length written < 4\<close> show ?thesis by (rule has_record)
      qed
    qed
  qed
qed

lemma row_record_short: "length written < 4 \<Longrightarrow> row_record pf written = None"
  by (auto simp: row_record_def split: list.splits dest!: arg_cong [where f = length])

lemma load_rows_invariant:
  assumes "P st" and step: "\<And>r st. P st \<Longrightarrow> P (load_record r st)"
  shows "P (snd (load_rows pf rows st))"
  using assms(1)
proof (induction rows arbitrary: st)
  case Nil
  then show ?case by simp
next
  case (Cons written rows)
  show ?case
  proof (cases rule: row_cases [where written = written and pf = pf])
    case over_limit
    show ?thesis using Cons.prems unfolding load_rows_over_limit [OF over_limit] snd_conv .
  next
    case short
    show ?thesis unfolding load_rows_short_row [OF short] by (rule Cons.IH [OF Cons.prems])
  next
    case (bad_amount rec_date rec_cat rec_amt rec_desc)
    show ?thesis using Cons.prems unfolding load_rows_bad_amount [where pf = pf, OF bad_amount] snd_conv .
  next
    case (has_record r)
    show ?thesis
      unfolding load_rows_record [OF has_record(1,3)]
      by (intro Cons.IH step Cons.prems)
  next
    case long
    show ?thesis using Cons.prems unfolding load_rows_long_row [OF long] snd_conv .
  qed
qed

lemma load_rows_passes:
  "list_all (passes pf) rows \<Longrightarrow>
   load_rows pf rows st = (None, fold load_record (rows_records pf rows) st)"
proof (induction rows arbitrary: st)
  case Nil
  show ?case by (simp add: rows_records_def map_filter_simps)
next
  case (Cons written rows)
  from Cons.prems have pw: "passes pf written" and rest: "list_all (passes pf) rows"
    by simp_all
  from pw have w: "within_limit written"
    and p: "length written < 4 \<or> row_record pf written \<noteq> None"
    by (simp_all add: passes_def)
  show ?case
  proof (cases "row_record pf written")
    case None
    with p have "length written < 4" by simp
    then show ?thesis
      using w None Cons.IH [OF rest]
      by (simp add: load_rows_short_row rows_records_def map_filter_simps del: load_rows.simps)
  next
    case (Some r)
    then show ?thesis
      using w Cons.IH [OF rest]
      by (simp add: load_rows_record rows_records_def map_filter_simps del: load_rows.simps)
  qed
qed



lemma saved_rows_pass:
  assumes "list_all (\<lambda>(rec_date, rec_cat, rec_amt, rec_desc). pf (ps rec_amt) = Some rec_amt) h"
    and "list_all (\<lambda>r. list_all field_ok (record_row ps r)) h"
  shows "list_all (passes pf) (map (record_row ps) h) \<and>
         rows_records pf (map (record_row ps) h) = h"
  using assms
proof (induction h)
  case Nil
  show ?case by (simp add: rows_records_def map_filter_simps)
next
  case (Cons r h)
  obtain d c a x where r: "r = (d, c, a, x)" by (cases r) auto
  from Cons.prems have pa: "pf (ps a) = Some a" and ok: "list_all field_ok [d, c, ps a, x]"
    by (simp_all add: r record_row_def)
  from ok have rd: "map universal_newlines [d, c, ps a, x] = [d, c, ps a, x]"
    by (rule read_ok)
  have rr: "row_record pf (record_row ps r) = Some r"
    unfolding r record_row_def row_record_def prod.case rd by (simp add: pa)
  have "passes pf (record_row ps r)"
    using within_limit_ok [OF ok] rr by (simp add: passes_def r record_row_def)
  with Cons rr show ?case
    by (simp add: rows_records_def map_filter_simps)
qed

subsection \<open>Updating a dict from another\<close>

lemma dict_update_Cons: "dict_update d ((k, v) # other) = dict_update (AList.update k v d) other"
  by (simp add: dict_update_def)

lemma dict_update_Nil: "dict_update d [] = d"
  by (simp add: dict_update_def)

lemma map_of_dict_update:
  "distinct (map fst other) \<Longrightarrow> map_of (dict_update d other) = map_of d ++ map_of other"
proof (induction other arbitrary: d)
  case Nil
  show ?case by (simp add: dict_update_Nil)
next
  case (Cons p other)
  obtain k v where p: "p = (k, v)" by (cases p) auto
  from Cons.prems have k: "k \<notin> fst ` set other" and d: "distinct (map fst other)"
    by (simp_all add: p)
  have "map_of (dict_update d (p # other)) = (map_of d)(k \<mapsto> v) ++ map_of other"
    unfolding p dict_update_Cons by (simp only: Cons.IH [OF d] update_conv')
  also have "\<dots> = (map_of d ++ map_of other)(k \<mapsto> v)"
    using k by (intro map_add_upd_left) (simp add: dom_map_of_conv_image_fst)
  also have "\<dots> = map_of d ++ map_of (p # other)"
    unfolding p by simp
  finally show ?case .
qed

lemma keys_dict_update:
  "set (map fst (dict_update d other)) = set (map fst d) \<union> set (map fst other)"
proof (induction other arbitrary: d)
  case Nil
  show ?case by (simp add: dict_update_Nil)
next
  case (Cons p other)
  obtain k v where p: "p = (k, v)" by (cases p) auto
  show ?case
    unfolding p dict_update_Cons using Cons.IH [of "AList.update k v d"]
    by (auto simp: dom_update)
qed

lemma distinct_dict_update:
  "distinct (map fst d) \<Longrightarrow> distinct (map fst (dict_update d other))"
proof (induction other arbitrary: d)
  case Nil
  then show ?case by (simp add: dict_update_Nil)
next
  case (Cons p other)
  obtain k v where p: "p = (k, v)" by (cases p) auto
  show ?case
    unfolding p dict_update_Cons using Cons.prems by (intro Cons.IH distinct_update)
qed

lemma history_load_record: "expense_history (load_record r st) = expense_history st @ [r]"
  by (cases r) (simp add: load_record_def)

lemma budgets_load_record: "budgets (load_record r st) = budgets st"
  by (cases r) (simp add: load_record_def)

lemma map_of_load_record:
  "map_of (expenses (load_record (d, c, a, x) st)) =
     (map_of (expenses st))(c \<mapsto> (case map_of (expenses st) c of Some cur \<Rightarrow> fadd cur a | None \<Rightarrow> a))"
  by (simp add: load_record_def update_conv' split: option.splits)

lemma keys_load_record:
  "set (map fst (expenses (load_record (d, c, a, x) st))) = insert c (set (map fst (expenses st)))"
  by (auto simp: load_record_def dom_update split: option.splits)

lemma distinct_load_record:
  "distinct (map fst (expenses st)) \<Longrightarrow> distinct (map fst (expenses (load_record r st)))"
  by (cases r) (auto simp: load_record_def distinct_update split: option.splits)

lemma history_fold_load_record:
  "expense_history (fold load_record h st) = expense_history st @ h"
  by (induction h arbitrary: st) (simp_all add: history_load_record)

lemma budgets_fold_load_record: "budgets (fold load_record h st) = budgets st"
  by (induction h arbitrary: st) (simp_all add: budgets_load_record)

lemma keys_fold_load_record:
  "set (map fst (expenses (fold load_record h st)))
     = set (map fst (expenses st)) \<union> set (history_categories h)"
proof (induction h arbitrary: st)
  case Nil
  show ?case by (simp add: history_categories_def)
next
  case (Cons r h)
  obtain d c a x where r: "r = (d, c, a, x)" by (cases r) auto
  show ?case
    using Cons.IH [of "load_record r st"] keys_load_record [of d c a x st]
    by (auto simp: r history_categories_def)
qed

lemma category_sum_absent:
  "c \<notin> set (history_categories h) \<Longrightarrow> category_sum c h = Finite 0"
proof -
  assume "c \<notin> set (history_categories h)"
  then have "filter (\<lambda>(rec_date, rec_cat, rec_amt, rec_desc). rec_cat = c) h = []"
    by (force simp: history_categories_def filter_empty_conv)
  then show ?thesis by (simp add: category_sum_def py_sum_def)
qed

lemma fresh_inv_initial: "fresh_inv initial_ledger"
  by (simp add: fresh_inv_def totals_in_sync_def initial_ledger_def DEFAULT_CATEGORIES_def
      history_categories_def category_sum_Nil)

lemma fresh_inv_load_record:
  assumes "fresh_inv st"
  shows "fresh_inv (load_record r st)"
proof -
  obtain d c a x where r: "r = (d, c, a, x)" by (cases r) auto
  have dst: "distinct (map fst (expenses st))"
    and keys: "set (map fst (expenses st))
        = set DEFAULT_CATEGORIES \<union> set (history_categories (expense_history st))"
    and sync: "totals_in_sync st"
    using assms by (simp_all add: fresh_inv_def)
  have d': "distinct (map fst (expenses (load_record r st)))"
    using dst by (rule distinct_load_record)
  have k': "set (map fst (expenses (load_record r st)))
      = set DEFAULT_CATEGORIES \<union> set (history_categories (expense_history (load_record r st)))"
    unfolding r keys_load_record history_load_record using keys
    by (auto simp: history_categories_def)
  have none: "category_sum c (expense_history st) = Finite 0" if "map_of (expenses st) c = None"
  proof -
    from that have "c \<notin> set (map fst (expenses st))" by (simp add: map_of_eq_None_iff)
    with keys have "c \<notin> set (history_categories (expense_history st))" by simp
    then show ?thesis by (rule category_sum_absent)
  qed
  have "totals_in_sync (load_record r st)"
    unfolding totals_in_sync_iff [OF d']
    using sync none unfolding totals_in_sync_iff [OF dst] r map_of_load_record history_load_record
    by (auto simp: category_sum_snoc fadd_zero_left split: option.splits)
  with d' k' show ?thesis by (simp add: fresh_inv_def)
qed

lemma fresh_inv_load_rows: "fresh_inv st \<Longrightarrow> fresh_inv (snd (load_rows pf rows st))"
  by (rule load_rows_invariant) (simp_all add: fresh_inv_load_record)

lemma budgets_load_rows: "budgets (snd (load_rows pf rows st)) = budgets st"
  by (rule load_rows_invariant [where P = "\<lambda>s. budgets s = budgets st"])
    (simp_all add: budgets_load_record)

lemma load_file_rows_invariant:
  assumes "P st" and "\<And>r st. P st \<Longrightarrow> P (load_record r st)"
  shows "P (snd (load_file_rows pf file_rows st))"
proof (cases file_rows)
  case Nil
  with assms(1) show ?thesis by (simp add: load_file_rows_def)
next
  case (Cons header rows)
  show ?thesis
  proof (cases "csv_read_row header")
    case (Inl e)
    with Cons assms(1) show ?thesis by (simp add: load_file_rows_def)
  next
    case (Inr headers)
    have "P (snd (load_rows pf rows st))" using assms by (rule load_rows_invariant)
    with Cons Inr show ?thesis by (simp add: load_file_rows_def)
  qed
qed

subsection \<open>Every operation keeps the ledger well formed\<close>

lemma ledger_wf_iff:
  "ledger_wf st \<longleftrightarrow>
     distinct (map fst (expenses st)) \<and> distinct (map fst (budgets st)) \<and>
     set DEFAULT_CATEGORIES \<subseteq> set (map fst (expenses st)) \<and>
     set DEFAULT_CATEGORIES \<subseteq> set (map fst (budgets st)) \<and>
     set (history_categories (expense_history st)) \<subseteq> set (map fst (expenses st))"
  by (auto simp: ledger_wf_def list_all_iff)

lemma ledger_wf_initial: "ledger_wf initial_ledger"
  by (simp add: ledger_wf_def initial_ledger_def DEFAULT_CATEGORIES_def history_categories_def)

lemma ledger_wf_add_expense:
  assumes "ledger_wf st"
  shows "ledger_wf (snd (add_expense pf today c amount d st))"
proof (cases pf today c amount d st rule: add_expense_cases)
  case rejected
  with assms show ?thesis by simp
next
  case (accepted t a)
  from accepted(1) have "c \<in> fst ` set (expenses st)" by (simp add: key_iff)
  then show ?thesis
    using assms unfolding accepted(4) ledger_wf_iff
    by (auto simp: distinct_update dom_update history_categories_def)
qed

lemma ledger_wf_set_budget:
  "ledger_wf st \<Longrightarrow> ledger_wf (snd (set_budget pf c amount st))"
  unfolding ledger_wf_iff
  by (auto simp: set_budget_def distinct_update dom_update split: option.splits)

lemma ledger_wf_remove_all_expenses:
  assumes "ledger_wf st"
  shows "ledger_wf (remove_all_expenses st)"
proof -
  have k: "map fst (expenses (remove_all_expenses st)) = map fst (expenses st)"
    by (simp only: expenses_remove_all keys_zeroed)
  have "expense_history (remove_all_expenses st) = []"
    and "budgets (remove_all_expenses st) = budgets st"
    by (simp_all add: remove_all_expenses_def)
  with assms k show ?thesis
    unfolding ledger_wf_iff by (simp add: history_categories_def)
qed

lemma ledger_wf_load_record:
  assumes "ledger_wf st"
  shows "ledger_wf (load_record r st)"
proof -
  obtain d c a x where r: "r = (d, c, a, x)" by (cases r) auto
  have "distinct (map fst (expenses (load_record r st)))"
    using assms by (intro distinct_load_record) (simp add: ledger_wf_iff)
  then show ?thesis
    using assms unfolding ledger_wf_iff r keys_load_record history_load_record budgets_load_record
    by (auto simp: history_categories_def r)
qed

lemma ledger_wf_load_data_from_file:
  assumes "ledger_wf st"
  shows "ledger_wf (snd (load_data_from_file pf fs st))"
proof (cases "data_file fs")
  case None
  then show ?thesis using assms by (simp add: load_data_from_file_def)
next
  case (Some file_rows)
  obtain e st1 where l: "load_file_rows pf file_rows st = (e, st1)"
    by (cases "load_file_rows pf file_rows st") auto
  have "ledger_wf (snd (load_file_rows pf file_rows st))"
    using assms by (rule load_file_rows_invariant) (rule ledger_wf_load_record)
  then have wf1: "ledger_wf st1" unfolding l snd_conv .
  show ?thesis
  proof (cases e)
    case (Some err)
    then show ?thesis
      using wf1 l \<open>data_file fs = Some file_rows\<close> by (simp add: load_data_from_file_def)
  next
    case None
    show ?thesis
    proof (cases "meta_file fs")
      case None
      then show ?thesis
        using wf1 l \<open>e = None\<close> \<open>data_file fs = Some file_rows\<close>
        by (simp add: load_data_from_file_def)
    next
      case (Some m)
      let ?me = "case meta_expenses m of None \<Rightarrow> [] | Some e \<Rightarrow> e"
      let ?mb = "case meta_budgets m of None \<Rightarrow> [] | Some b \<Rightarrow> b"
      have s: "snd (load_data_from_file pf fs st)
          = st1\<lparr>expenses := dict_update (expenses st1) ?me,
                 budgets := dict_update (budgets st1) ?mb\<rparr>"
        using l \<open>e = None\<close> \<open>data_file fs = Some file_rows\<close> Some
        by (simp add: load_data_from_file_def)
      show ?thesis
        using wf1 unfolding s ledger_wf_iff
        by (auto simp: distinct_dict_update keys_dict_update [simplified])
    qed
  qed
qed

subsection \<open>Loading\<close>

lemma load_data_from_file_rows:
  assumes "within_limit header"
  shows "load_data_from_file pf \<lparr>data_file = Some (header # rows), meta_file = mf\<rparr> st =
     (case load_rows pf rows st of
        (Some e, st') \<Rightarrow> (Error_loading e, st')
      | (None, st') \<Rightarrow>
          (case mf of
             None \<Rightarrow> (Loaded, st')
           | Some m \<Rightarrow>
               (Loaded,
                st'\<lparr>expenses :=
                      dict_update (expenses st')
                        (case meta_expenses m of None \<Rightarrow> [] | Some e \<Rightarrow> e),
                    budgets :=
                      dict_update (budgets st')
                        (case meta_budgets m of None \<Rightarrow> [] | Some b \<Rightarrow> b)\<rparr>)))"
  using assms
  by (simp add: load_data_from_file_def load_file_rows_def csv_read_row_def
      split: prod.split option.split del: load_rows.simps)


lemma within_limit_short: "list_all (\<lambda>f. CHR 0x0D \<notin> set f \<and> length f \<le> 20) row \<Longrightarrow> within_limit row"
  by (rule within_limit_ok) (auto simp: field_ok_def field_size_limit_def list_all_iff)




lemma load_Loaded:
  assumes "load_data_from_file pf fs st = (Loaded, st')"
  obtains file_rows st1 where "data_file fs = Some file_rows"
    and "load_file_rows pf file_rows st = (None, st1)"
    and "st' = (case meta_file fs of
                  None \<Rightarrow> st1
                | Some m \<Rightarrow>
                    st1\<lparr>expenses :=
                          dict_update (expenses st1)
                            (case meta_expenses m of None \<Rightarrow> [] | Some e \<Rightarrow> e),
                        budgets :=
                          dict_update (budgets st1)
                            (case meta_budgets m of None \<Rightarrow> [] | Some b \<Rightarrow> b)\<rparr>)"
  using assms
  by (auto simp: load_data_from_file_def split: option.splits prod.splits)

text \<open>
  Claim C2, as amended. A load into the fresh ledger that succeeds and finds a metadata
  file recomputes the totals from the rows and then overwrites them with the stored
  totals (\<open>dict.update\<close> replaces a value, it does not add to it): a category that the
  metadata holds has exactly its stored total, and any other category, when it is a
  default category or the category of a loaded record, has the sum recomputed from the
  loaded records. After a save and a load, the total of a category is its stored
  snapshot, counted once.
\<close>

theorem load_overwrites_with_stored_totals:
  assumes "meta_file fs = Some m"
    and "me = (case meta_expenses m of None \<Rightarrow> [] | Some e \<Rightarrow> e)"
    and "distinct (map fst me)"
    and "load_data_from_file pf fs initial_ledger = (Loaded, st')"
  shows "map_of (expenses st') c =
           (case map_of me c of
              Some stored \<Rightarrow> Some stored
            | None \<Rightarrow>
                if c \<in> set DEFAULT_CATEGORIES \<union> set (history_categories (expense_history st'))
                then Some (category_sum c (expense_history st')) else None)"
proof -
  from assms(4) obtain file_rows st1 where
    rows: "load_file_rows pf file_rows initial_ledger = (None, st1)"
    and st': "st' = st1\<lparr>expenses := dict_update (expenses st1) me,
                         budgets := dict_update (budgets st1)
                            (case meta_budgets m of None \<Rightarrow> [] | Some b \<Rightarrow> b)\<rparr>"
    by (rule load_Loaded) (simp add: assms(1,2))
  have "fresh_inv (snd (load_file_rows pf file_rows initial_ledger))"
    using fresh_inv_initial by (rule load_file_rows_invariant) (rule fresh_inv_load_record)
  then have inv: "fresh_inv st1" unfolding rows snd_conv .
  then have dst: "distinct (map fst (expenses st1))"
    and keys: "set (map fst (expenses st1))
        = set DEFAULT_CATEGORIES \<union> set (history_categories (expense_history st1))"
    and sync: "totals_in_sync st1"
    by (simp_all add: fresh_inv_def)
  have recomputed: "map_of (expenses st1) c =
      (if c \<in> set DEFAULT_CATEGORIES \<union> set (history_categories (expense_history st1))
       then Some (category_sum c (expense_history st1)) else None)"
  proof (cases "map_of (expenses st1) c")
    case None
    then have "c \<notin> set (map fst (expenses st1))" by (simp add: map_of_eq_None_iff)
    with keys None show ?thesis by simp
  next
    case (Some t)
    then have "c \<in> set (map fst (expenses st1))"
      using map_of_eq_None_iff [of "expenses st1" c] by auto
    moreover have "t = category_sum c (expense_history st1)"
      using sync Some unfolding totals_in_sync_iff [OF dst] by simp
    ultimately show ?thesis using keys Some by simp
  qed
  have h: "expense_history st' = expense_history st1" by (simp add: st')
  have "map_of (expenses st') c = (map_of (expenses st1) ++ map_of me) c"
    by (simp add: st' map_of_dict_update [OF assms(3)])
  then show ?thesis
    unfolding h recomputed [symmetric] by (simp add: map_add_def split: option.splits)
qed

lemma one_expense_eq:
  "one_expense =
     \<lparr>expenses = [(''Food'', Finite 10), (''Transportation'', Finite 0),
                  (''Entertainment'', Finite 0), (''Utilities'', Finite 0),
                  (''Health'', Finite 0), (''Shopping'', Finite 0),
                  (''Education'', Finite 0), (''Other'', Finite 0)],
      expense_history = [(''2024-01-01'', ''Food'', Finite 10, ''lunch'')],
      budgets = map (\<lambda>cat. (cat, None)) DEFAULT_CATEGORIES\<rparr>"
  by (simp add: one_expense_def add_expense_def initial_ledger_def DEFAULT_CATEGORIES_def
      example_float_def)

lemma load_save_one_expense:
  "load_data_from_file example_float (save_data_to_file example_str one_expense) initial_ledger
     = (Loaded, one_expense)"
  unfolding one_expense_eq
  by (simp add: load_data_from_file_def load_file_rows_def csv_read_row_def within_limit_def
      field_size_limit_def save_data_to_file_def initial_ledger_def
      DEFAULT_CATEGORIES_def example_float_def example_str_def dict_update_def)

lemma one_expense_reloaded_eq: "one_expense_reloaded = one_expense"
  by (simp add: one_expense_reloaded_def load_save_one_expense)

theorem load_overwrites_with_stored_totals_witness:
  "meta_file (save_data_to_file example_str one_expense)
     = Some \<lparr>meta_expenses = Some (expenses one_expense), meta_budgets = Some (budgets one_expense)\<rparr> \<and>
   distinct (map fst (expenses one_expense)) \<and>
   load_data_from_file example_float (save_data_to_file example_str one_expense) initial_ledger
     = (Loaded, one_expense_reloaded) \<and>
   map_of (expenses one_expense) ''Food'' = Some (Finite 10) \<and>
   map_of (expenses one_expense_reloaded) ''Food'' = Some (Finite 10)"
proof -
  have h1: "meta_file (save_data_to_file example_str one_expense)
     = Some \<lparr>meta_expenses = Some (expenses one_expense), meta_budgets = Some (budgets one_expense)\<rparr>"
    by (simp add: save_data_to_file_def)
  have h2: "expenses one_expense
     = (case meta_expenses \<lparr>meta_expenses = Some (expenses one_expense),
                            meta_budgets = Some (budgets one_expense)\<rparr>
        of None \<Rightarrow> [] | Some e \<Rightarrow> e)"
    by simp
  have h3: "distinct (map fst (expenses one_expense))"
    unfolding one_expense_eq by simp
  have h4: "load_data_from_file example_float (save_data_to_file example_str one_expense)
      initial_ledger = (Loaded, one_expense_reloaded)"
    by (simp add: one_expense_reloaded_eq load_save_one_expense)
  have s: "map_of (expenses one_expense) ''Food'' = Some (Finite 10)"
    unfolding one_expense_eq by simp
  from load_overwrites_with_stored_totals [OF h1 h2 h3 h4, of "''Food''"] s h1 h3 h4
  show ?thesis by simp
qed

lemma bitlen_20: "bitlen 20 = 5"
  by code_simp

lemma fadd_10_10: "fadd (Finite 10) (Finite 10) = Finite 20"
proof -
  have "round_half_even (20 * 2 ^ 48) = 20 * 2 ^ 48"
    using round_half_even_of_int [of "20 * 2 ^ 48"] by simp
  then show ?thesis
    by (simp add: round_double_def binade_def bitlen_20 pow2_def Let_def)
qed

text \<open>
  The claim as it is stated fails: after one expense of 10 on Food, a save and a load
  into the fresh ledger, the recomputed sum is 10 and the stored total is 10, and the
  loaded total is 10, not their sum 20.
\<close>

theorem load_double_count_counterexample:
  "map_of (expenses one_expense) ''Food'' = Some (Finite 10) \<and>
   category_sum ''Food'' (expense_history one_expense_reloaded) = Finite 10 \<and>
   map_of (expenses one_expense_reloaded) ''Food'' = Some (Finite 10) \<and>
   fadd (category_sum ''Food'' (expense_history one_expense_reloaded)) (Finite 10) = Finite 20 \<and>
   map_of (expenses one_expense_reloaded) ''Food''
     \<noteq> Some (fadd (category_sum ''Food'' (expense_history one_expense_reloaded)) (Finite 10))"
  unfolding one_expense_reloaded_eq one_expense_eq
  by (simp add: category_sum_def py_sum_def fadd_zero_left fadd_10_10 del: fadd.simps)

subsection \<open>Saving and loading again\<close>

text \<open>
  Claim C1, as amended. Take a ledger of the program (\<open>ledger_wf\<close>, which the lemmas
  above show to hold of the fresh ledger and to be kept by every operation, loads
  included), empty or not, without a NaN in it, whose amounts \<open>float\<close> reads back from
  the text written for them, and in whose records no field has a carriage return or more
  characters than the field size limit. Saving it and loading the two files into the
  fresh ledger succeeds and gives the same history (the same list, hence the same set of
  records), the same total for every category and the same budget for every category.
\<close>

theorem save_load_roundtrip:
  assumes "ledger_wf st"
    and "list_all (\<lambda>(rec_date, rec_cat, rec_amt, rec_desc). pf (ps rec_amt) = Some rec_amt)
           (expense_history st)"
    and "list_all (\<lambda>r. list_all field_ok (record_row ps r)) (expense_history st)"
    and "has_no_nan st"
  shows "fst (load_data_from_file pf (save_data_to_file ps st) initial_ledger) = Loaded \<and>
         expense_history (snd (load_data_from_file pf (save_data_to_file ps st) initial_ledger))
           = expense_history st \<and>
         set (expense_history (snd (load_data_from_file pf (save_data_to_file ps st) initial_ledger)))
           = set (expense_history st) \<and>
         map_of (expenses (snd (load_data_from_file pf (save_data_to_file ps st) initial_ledger)))
           = map_of (expenses st) \<and>
         map_of (budgets (snd (load_data_from_file pf (save_data_to_file ps st) initial_ledger)))
           = map_of (budgets st)"
proof -
  let ?h = "expense_history st"
  let ?st1 = "fold load_record ?h initial_ledger"
  let ?st' = "?st1\<lparr>expenses := dict_update (expenses ?st1) (expenses st),
                   budgets := dict_update (budgets ?st1) (budgets st)\<rparr>"
  have rows: "map (\<lambda>(rec_date, rec_cat, rec_amt, rec_desc). [rec_date, rec_cat, ps rec_amt, rec_desc]) ?h
      = map (record_row ps) ?h"
    by (simp add: record_row_def fun_eq_iff)
  have header: "within_limit [''date'', ''category'', ''amount'', ''description'']"
    by (rule within_limit_short) simp
  from saved_rows_pass [OF assms(2,3)] have pass: "list_all (passes pf) (map (record_row ps) ?h)"
    and recs: "rows_records pf (map (record_row ps) ?h) = ?h"
    by blast+
  have load: "load_data_from_file pf (save_data_to_file ps st) initial_ledger = (Loaded, ?st')"
    unfolding save_data_to_file_def rows load_data_from_file_rows [OF header]
    by (simp add: load_rows_passes [OF pass] recs del: load_rows.simps)
  have de: "distinct (map fst (expenses st))" and db: "distinct (map fst (budgets st))"
    and ke: "set DEFAULT_CATEGORIES \<subseteq> set (map fst (expenses st))"
    and kb: "set DEFAULT_CATEGORIES \<subseteq> set (map fst (budgets st))"
    and kh: "set (history_categories ?h) \<subseteq> set (map fst (expenses st))"
    using assms(1) by (auto simp: ledger_wf_def list_all_iff)
  have hist: "expense_history ?st' = ?h"
    by (simp add: history_fold_load_record initial_ledger_def)
  have k1: "set (map fst (expenses ?st1)) \<subseteq> set (map fst (expenses st))"
    unfolding keys_fold_load_record using ke kh by (simp add: initial_ledger_def comp_def)
  have "map_of (expenses ?st') c = map_of (expenses st) c" for c
  proof (cases "map_of (expenses st) c")
    case None
    then have "c \<notin> set (map fst (expenses st))" by (simp add: map_of_eq_None_iff)
    with k1 have "c \<notin> set (map fst (expenses ?st1))" by blast
    then have "map_of (expenses ?st1) c = None" by (simp add: map_of_eq_None_iff)
    with None show ?thesis by (simp add: map_of_dict_update [OF de] map_add_def)
  next
    case (Some t)
    then show ?thesis by (simp add: map_of_dict_update [OF de] map_add_def)
  qed
  then have exp: "map_of (expenses ?st') = map_of (expenses st)" by (rule ext)
  have b1: "set (map fst (budgets ?st1)) \<subseteq> set (map fst (budgets st))"
    unfolding budgets_fold_load_record using kb by (simp add: initial_ledger_def comp_def)
  have "map_of (budgets ?st') c = map_of (budgets st) c" for c
  proof (cases "map_of (budgets st) c")
    case None
    then have "c \<notin> set (map fst (budgets st))" by (simp add: map_of_eq_None_iff)
    with b1 have "c \<notin> set (map fst (budgets ?st1))" by blast
    then have "map_of (budgets ?st1) c = None" by (simp add: map_of_eq_None_iff)
    with None show ?thesis by (simp add: map_of_dict_update [OF db] map_add_def)
  next
    case (Some t)
    then show ?thesis by (simp add: map_of_dict_update [OF db] map_add_def)
  qed
  then have bud: "map_of (budgets ?st') = map_of (budgets st)" by (rule ext)
  show ?thesis
    unfolding load fst_conv snd_conv using hist exp bud by simp
qed

lemma ledger_wf_one_expense: "ledger_wf one_expense"
  unfolding one_expense_eq
  by (simp add: ledger_wf_def DEFAULT_CATEGORIES_def history_categories_def)

theorem save_load_roundtrip_witness:
  "ledger_wf one_expense \<and> has_no_nan one_expense \<and>
   example_float (example_str (Finite 10)) = Some (Finite 10) \<and>
   list_all field_ok [''2024-01-01'', ''Food'', example_str (Finite 10), ''lunch''] \<and>
   expense_history one_expense = [(''2024-01-01'', ''Food'', Finite 10, ''lunch'')] \<and>
   expense_history
     (snd (load_data_from_file example_float (save_data_to_file example_str one_expense)
             initial_ledger))
     = [(''2024-01-01'', ''Food'', Finite 10, ''lunch'')] \<and>
   map_of (expenses
     (snd (load_data_from_file example_float (save_data_to_file example_str one_expense)
             initial_ledger))) = map_of (expenses one_expense)"
proof -
  have h: "expense_history one_expense = [(''2024-01-01'', ''Food'', Finite 10, ''lunch'')]"
    unfolding one_expense_eq by simp
  have p: "example_float (example_str (Finite 10)) = Some (Finite 10)"
    by (simp add: example_float_def example_str_def)
  have a2: "list_all (\<lambda>(rec_date, rec_cat, rec_amt, rec_desc).
               example_float (example_str rec_amt) = Some rec_amt) (expense_history one_expense)"
    unfolding h using p by simp
  have f: "list_all field_ok [''2024-01-01'', ''Food'', example_str (Finite 10), ''lunch'']"
    by (simp add: field_ok_def field_size_limit_def example_str_def)
  have a3: "list_all (\<lambda>r. list_all field_ok (record_row example_str r))
      (expense_history one_expense)"
    unfolding h using f by (simp add: record_row_def)
  have n: "has_no_nan one_expense"
    unfolding one_expense_eq by (simp add: has_no_nan_def DEFAULT_CATEGORIES_def)
  from save_load_roundtrip [OF ledger_wf_one_expense a2 a3 n] ledger_wf_one_expense p f h n
  show ?thesis by simp
qed

lemma cr_expense_eq:
  "cr_expense =
     initial_ledger
       \<lparr>expense_history := [(''2024-01-01'', ''Food'', Finite 10, [CHR ''a'', CHR 0x0D, CHR ''b''])],
        expenses := [(''Food'', Finite 10), (''Transportation'', Finite 0),
                     (''Entertainment'', Finite 0), (''Utilities'', Finite 0),
                     (''Health'', Finite 0), (''Shopping'', Finite 0),
                     (''Education'', Finite 0), (''Other'', Finite 0)]\<rparr>"
  by (simp add: cr_expense_def add_expense_def initial_ledger_def DEFAULT_CATEGORIES_def
      example_float_def)

lemma long_expense_eq:
  "long_expense =
     initial_ledger
       \<lparr>expense_history := [(''2024-01-01'', ''Food'', Finite 10, long_description)],
        expenses := [(''Food'', Finite 10), (''Transportation'', Finite 0),
                     (''Entertainment'', Finite 0), (''Utilities'', Finite 0),
                     (''Health'', Finite 0), (''Shopping'', Finite 0),
                     (''Education'', Finite 0), (''Other'', Finite 0)]\<rparr>"
  by (simp add: long_expense_def add_expense_def initial_ledger_def DEFAULT_CATEGORIES_def
      example_float_def)

lemma long_description_read:
  "length (universal_newlines long_description) = 131073"
proof -
  have "CHR 0x0D \<notin> set long_description"
    unfolding long_description_def by (simp only: set_replicate_conv_if) simp
  then have "universal_newlines long_description = long_description"
    by (rule universal_newlines_id)
  then show ?thesis
    unfolding long_description_def by (simp only: length_replicate)
qed

lemma long_row_over_limit:
  "\<not> within_limit [''2024-01-01'', ''Food'', ''10.0'', long_description]"
  by (simp add: within_limit_def long_description_read field_size_limit_def)

text \<open>
  The claim as it is stated fails for two ledgers with one record each. A carriage
  return in the description is a line feed after the load, because the file is read
  without \<open>newline=''\<close>; and a description of 131073 characters makes the reader raise
  \<open>csv.Error\<close>, so that the load reports an error and loads nothing.
\<close>

theorem save_load_roundtrip_counterexample:
  "expense_history cr_expense
     = [(''2024-01-01'', ''Food'', Finite 10, [CHR ''a'', CHR 0x0D, CHR ''b''])] \<and>
   load_data_from_file example_float (save_data_to_file example_str cr_expense) initial_ledger
     = (Loaded,
        cr_expense\<lparr>expense_history :=
          [(''2024-01-01'', ''Food'', Finite 10, [CHR ''a'', CHR 0x0A, CHR ''b''])]\<rparr>) \<and>
   expense_history
     (snd (load_data_from_file example_float (save_data_to_file example_str cr_expense)
             initial_ledger))
     \<noteq> expense_history cr_expense \<and>
   expense_history long_expense = [(''2024-01-01'', ''Food'', Finite 10, long_description)] \<and>
   length long_description = 131073 \<and>
   load_data_from_file example_float (save_data_to_file example_str long_expense) initial_ledger
     = (Error_loading csv_Error, initial_ledger)"
proof -
  have cr: "load_data_from_file example_float (save_data_to_file example_str cr_expense)
      initial_ledger
     = (Loaded,
        cr_expense\<lparr>expense_history :=
          [(''2024-01-01'', ''Food'', Finite 10, [CHR ''a'', CHR 0x0A, CHR ''b''])]\<rparr>)"
    unfolding cr_expense_eq
    by (simp add: load_data_from_file_def load_file_rows_def csv_read_row_def within_limit_def
        field_size_limit_def save_data_to_file_def initial_ledger_def
        DEFAULT_CATEGORIES_def example_float_def example_str_def dict_update_def)
  have header: "within_limit [''date'', ''category'', ''amount'', ''description'']"
    by (rule within_limit_short) simp
  have long: "load_data_from_file example_float (save_data_to_file example_str long_expense)
      initial_ledger = (Error_loading csv_Error, initial_ledger)"
    unfolding long_expense_eq save_data_to_file_def
    by (simp add: load_data_from_file_rows [OF header] example_str_def
        load_rows_over_limit [OF long_row_over_limit] del: load_rows.simps)
  have len: "length long_description = 131073"
    unfolding long_description_def by (simp only: length_replicate)
  show ?thesis
    unfolding cr long snd_conv by (simp add: cr_expense_eq long_expense_eq len)
qed

end
